theory Spec2Isabelle
  imports Complex_Main "HOL-Library.Multiset"
begin

section \<open>17Call: voucher ledger and call settlement\<close>

text \<open>
  A shallow embedding of the request handlers of \<^verbatim>\<open>src/app.js\<close> over the tables of
  \<^verbatim>\<open>src/17call_schema.sql\<close>. A table is the list of its rows in insertion order, a
  handler is a function from the database and the request body to the reply and the
  database it leaves behind. What the handlers draw from outside (random code
  characters, generated UUIDs, \<^verbatim>\<open>CURRENT_TIMESTAMP\<close>, the authenticated admin) is an
  argument of the handler. Two functions of the platform that the repository does not
  define are arguments too: JavaScript's \<^verbatim>\<open>String.prototype.toUpperCase\<close> and the
  database's reading of a text as a \<^verbatim>\<open>UUID\<close>; every general theorem holds for all
  functions in their place.

  A query that throws makes the handler answer \<^verbatim>\<open>Internal server error\<close> with status
  500; what earlier queries of the handler wrote stays written, since each query outside
  the batch transaction commits on its own. The model has these throws: a text with a
  NUL character, a text that does not fit its \<^verbatim>\<open>VARCHAR(n)\<close> column, an integer
  outside the range of \<^verbatim>\<open>INTEGER\<close> (as a value or as the result of the subtraction
  in the voucher update), a text that is no \<^verbatim>\<open>UUID\<close>, a \<^verbatim>\<open>UNIQUE\<close> or
  \<^verbatim>\<open>PRIMARY KEY\<close> violation, and a fault injected into a voucher insert of a batch.

  Scope of the model: a request field is absent, a string or an integer, as the handler
  expects it; a string is well-formed text in UTF-8, one \<open>char\<close> per byte; the admin of
  the token is a row of \<^verbatim>\<open>admin_users\<close>; the boolean columns are not \<^verbatim>\<open>NULL\<close>;
  every query is one atomic step and handlers run one after the other; the rate limiter
  and the JWT check in front of the handlers are not modelled.
\<close>

subsection \<open>Values of the database\<close>

text \<open>A \<^verbatim>\<open>UUID\<close> value, in the spelling the database prints.\<close>

type_synonym uuid = string
type_synonym timestamp = nat

text \<open>The range of the column type \<^verbatim>\<open>INTEGER\<close>.\<close>

definition int4 :: "int \<Rightarrow> bool" where
  "int4 n = (- 2147483648 \<le> n \<and> n \<le> 2147483647)"

text \<open>A text value cannot hold the character NUL.\<close>

definition text_ok :: "string \<Rightarrow> bool" where
  "text_ok s = (CHR 0x00 \<notin> set s)"

text \<open>
  The number of characters of a text: the bytes that are not continuation bytes
  (\<^verbatim>\<open>10xxxxxx\<close>) of UTF-8.
\<close>

definition char_length :: "string \<Rightarrow> nat" where
  "char_length s = length (filter (\<lambda>b. (of_char b :: nat) div 64 \<noteq> 2) s)"

text \<open>
  Storing a text into a \<^verbatim>\<open>VARCHAR(n)\<close> column: a text of more than \<open>n\<close> characters
  is an error, unless the excess characters are all spaces; then they are cut off.
  \<open>None\<close> is the error.
\<close>

definition varchar :: "nat \<Rightarrow> string \<Rightarrow> string option" where
  "varchar n s =
     (if \<not> text_ok s then None
      else if char_length s \<le> n then Some s
      else
        (let k = char_length s - n in
         if list_all (\<lambda>b. b = CHR '' '') (drop (length s - k) s)
         then Some (take (length s - k) s) else None))"

text \<open>
  The two functions of the platform: \<open>toUpperCase\<close> is JavaScript's
  \<^verbatim>\<open>String.prototype.toUpperCase\<close>; \<open>uuid_in\<close> reads a text as a \<^verbatim>\<open>UUID\<close>, as the
  database does for a parameter of that type, and is \<open>None\<close> where the database
  reports invalid input syntax.
\<close>

record platform =
  toUpperCase :: "string \<Rightarrow> string"
  uuid_in :: "string \<Rightarrow> uuid option"

subsection \<open>Tables\<close>

text \<open>Table \<^verbatim>\<open>vouchers\<close>; column \<^verbatim>\<open>id\<close> is \<open>v_id\<close>.\<close>

record voucher =
  v_id :: uuid
  code :: string
  duration_minutes :: int
  remaining_minutes :: int
  is_used :: bool
  is_active :: bool
  device_id :: "string option"
  used_at :: "timestamp option"
  created_by :: uuid
  batch_id :: "uuid option"

text \<open>Table \<^verbatim>\<open>call_logs\<close>; its \<^verbatim>\<open>device_id\<close> column is \<open>cl_device_id\<close>.\<close>

record call_log =
  call_id :: string
  voucher_id :: "uuid option"
  phone_number :: string
  country_code :: string
  call_type :: string
  duration_seconds :: int
  status :: string
  ended_at :: "timestamp option"
  cl_device_id :: "string option"

text \<open>Table \<^verbatim>\<open>voucher_batches\<close>.\<close>

record voucher_batch =
  b_id :: uuid
  b_quantity :: int
  b_duration_minutes :: int
  b_created_by :: uuid

text \<open>Table \<^verbatim>\<open>system_logs\<close>; \<open>details\<close> is the object given to \<^verbatim>\<open>JSON.stringify\<close>.\<close>

datatype details =
    CallStarted string string
  | CallEnded int int
  | VoucherCreated int string
  | VoucherBatchCreated int int

record system_log =
  action :: string
  entity_type :: string
  entity_id :: uuid
  admin_user_id :: "uuid option"
  log_details :: details

record db =
  vouchers :: "voucher list"
  call_logs :: "call_log list"
  voucher_batches :: "voucher_batch list"
  system_logs :: "system_log list"

text \<open>The schema creates the four tables empty.\<close>

definition init_db :: db where
  "init_db = \<lparr>vouchers = [], call_logs = [], voucher_batches = [], system_logs = []\<rparr>"

subsection \<open>Replies and request fields\<close>

text \<open>\<^verbatim>\<open>sendResponse(res, data)\<close> and \<^verbatim>\<open>sendError(res, error, status)\<close>.\<close>

datatype 'a reply = SendResponse 'a | SendError string nat

text \<open>
  A request field is absent (\<open>None\<close>) or present. \<^verbatim>\<open>!x\<close> is true of an absent field,
  of the empty string and of the number 0.
\<close>

definition falsy_str :: "string option \<Rightarrow> bool" where
  "falsy_str x = (case x of None \<Rightarrow> True | Some s \<Rightarrow> s = [])"

definition falsy_num :: "int option \<Rightarrow> bool" where
  "falsy_num x = (case x of None \<Rightarrow> True | Some n \<Rightarrow> n = 0)"

subsection \<open>Voucher codes\<close>

text \<open>
  \<^verbatim>\<open>generateVoucherCode\<close>: twelve characters of \<open>chars\<close>; \<open>draw i\<close> is the value of
  \<^verbatim>\<open>Math.floor(Math.random() * chars.length)\<close> in round \<open>i\<close>. \<^verbatim>\<open>charAt\<close> out of
  range is the empty string.
\<close>

definition chars :: string where
  "chars = ''ABCDEFGHIJKLMNOPQRSTUVWXYZ0123456789''"

definition charAt :: "string \<Rightarrow> nat \<Rightarrow> string" where
  "charAt s k = (if k < length s then [s ! k] else [])"

definition generateVoucherCode :: "(nat \<Rightarrow> nat) \<Rightarrow> string" where
  "generateVoucherCode draw = concat (map (\<lambda>i. charAt chars (draw i)) [0..<12])"

text \<open>\<^verbatim>\<open>SELECT id FROM vouchers WHERE code = $1\<close> returns a row.\<close>

definition code_exists :: "string \<Rightarrow> voucher list \<Rightarrow> bool" where
  "code_exists c vs = (filter (\<lambda>v. code v = c) vs \<noteq> [])"

text \<open>
  The loop \<^verbatim>\<open>while (!isUnique)\<close>. The random source is the list of the draws of the
  coming calls of \<^verbatim>\<open>generateVoucherCode\<close>; the loop returns the first code that is
  not in the table and the rest of the source. When the source is used up the loop is
  still running: \<open>None\<close>.
\<close>

fun ensure_unique_code :: "(nat \<Rightarrow> nat) list \<Rightarrow> voucher list \<Rightarrow> (string \<times> (nat \<Rightarrow> nat) list) option" where
  "ensure_unique_code [] vs = None"
| "ensure_unique_code (draw # rand) vs =
     (if code_exists (generateVoucherCode draw) vs then ensure_unique_code rand vs
      else Some (generateVoucherCode draw, rand))"

text \<open>
  \<^verbatim>\<open>INSERT INTO vouchers (code, duration_minutes, remaining_minutes, created_by, batch_id)\<close>:
  the other columns take their defaults, \<open>new_id\<close> is the value of
  \<^verbatim>\<open>uuid_generate_v4()\<close>. The insert fails (\<open>None\<close>) when the primary key or the
  unique code is already in the table, or the minutes are outside \<^verbatim>\<open>INTEGER\<close>. (The
  code is one that \<open>generateVoucherCode\<close> made: at most twelve characters of \<open>chars\<close>,
  which fit \<^verbatim>\<open>VARCHAR(20)\<close>.)
\<close>

definition insert_voucher :: "uuid \<Rightarrow> string \<Rightarrow> int \<Rightarrow> uuid \<Rightarrow> uuid option \<Rightarrow> voucher list \<Rightarrow> voucher list option" where
  "insert_voucher new_id c durationMinutes admin batch vs =
     (if new_id \<in> set (map v_id vs) \<or> c \<in> set (map code vs) \<or> \<not> int4 durationMinutes then None
      else Some (vs @ [\<lparr>v_id = new_id, code = c, duration_minutes = durationMinutes,
                        remaining_minutes = durationMinutes, is_used = False, is_active = True,
                        device_id = None, used_at = None, created_by = admin,
                        batch_id = batch\<rparr>]))"

definition insert_system_log :: "system_log \<Rightarrow> db \<Rightarrow> db" where
  "insert_system_log l s = s\<lparr>system_logs := system_logs s @ [l]\<rparr>"

subsection \<open>POST /api/v1/vouchers/validate\<close>

record validate_data =
  vd_valid :: bool
  vd_durationMinutes :: int
  vd_voucherId :: "uuid option"

text \<open>
  The row object of \<^verbatim>\<open>SELECT id, duration_minutes, remaining_minutes, is_used, is_active\<close>:
  it has these five properties and no other.
\<close>

record validate_row =
  r_id :: uuid
  r_duration_minutes :: int
  r_remaining_minutes :: int
  r_is_used :: bool
  r_is_active :: bool

definition select_validate_row :: "voucher \<Rightarrow> validate_row" where
  "select_validate_row v =
     \<lparr>r_id = v_id v, r_duration_minutes = duration_minutes v,
      r_remaining_minutes = remaining_minutes v, r_is_used = is_used v,
      r_is_active = is_active v\<rparr>"

text \<open>
  \<^verbatim>\<open>voucher.device_id\<close> on that row object: the column is not in the select list, so
  the property read is \<^verbatim>\<open>undefined\<close>.
\<close>

definition row_device_id :: "validate_row \<Rightarrow> string option" where
  "row_device_id r = None"

text \<open>
  \<^verbatim>\<open>UPDATE vouchers SET device_id = $1 WHERE id = $2\<close>, with the text as the
  \<^verbatim>\<open>VARCHAR(100)\<close> column takes it.
\<close>

definition update_device_id :: "string \<Rightarrow> uuid \<Rightarrow> voucher list \<Rightarrow> voucher list" where
  "update_device_id deviceId i vs =
     map (\<lambda>v. if v_id v = i then v\<lparr>device_id := Some deviceId\<rparr> else v) vs"

definition invalid_data :: validate_data where
  "invalid_data = \<lparr>vd_valid = False, vd_durationMinutes = 0, vd_voucherId = None\<rparr>"

text \<open>
  The select compares the stored code with the uppercased text; it throws on a text
  with NUL. The update throws when the device id does not fit the column.
\<close>

definition validate_voucher :: "platform \<Rightarrow> db \<Rightarrow> string option \<Rightarrow> string option \<Rightarrow> validate_data reply \<times> db" where
  "validate_voucher pf s code_field deviceId_field =
     (if falsy_str code_field \<or> falsy_str deviceId_field
      then (SendError ''Code and deviceId are required'' 400, s)
      else if \<not> text_ok (toUpperCase pf (the code_field))
      then (SendError ''Internal server error'' 500, s)
      else
        (case map select_validate_row
                (filter (\<lambda>v. code v = toUpperCase pf (the code_field)) (vouchers s)) of
           [] \<Rightarrow> (SendResponse invalid_data, s)
         | voucher # _ \<Rightarrow>
             if \<not> r_is_active voucher \<or> r_is_used voucher \<or> r_remaining_minutes voucher \<le> 0
             then (SendResponse invalid_data, s)
             else if falsy_str (row_device_id voucher)
             then
               (case varchar 100 (the deviceId_field) of
                  None \<Rightarrow> (SendError ''Internal server error'' 500, s)
                | Some dev \<Rightarrow>
                    (SendResponse \<lparr>vd_valid = True, vd_durationMinutes = r_remaining_minutes voucher,
                                   vd_voucherId = Some (r_id voucher)\<rparr>,
                     s\<lparr>vouchers := update_device_id dev (r_id voucher) (vouchers s)\<rparr>))
             else
               (SendResponse \<lparr>vd_valid = True, vd_durationMinutes = r_remaining_minutes voucher,
                              vd_voucherId = Some (r_id voucher)\<rparr>, s)))"

subsection \<open>POST /api/v1/calls/start\<close>

record start_data =
  sd_callId :: string
  sd_remainingMinutes :: int

text \<open>
  \<^verbatim>\<open>INSERT INTO call_logs (call_id, voucher_id, phone_number, country_code, call_type, device_id)\<close>:
  \<^verbatim>\<open>duration_seconds\<close> defaults to 0 and \<^verbatim>\<open>status\<close> to \<^verbatim>\<open>'active'\<close>. The insert fails
  (\<open>None\<close>) when a text does not fit its column or the unique \<^verbatim>\<open>call_id\<close> is already
  in the table.
\<close>

definition insert_call_log :: "string \<Rightarrow> uuid \<Rightarrow> string \<Rightarrow> string \<Rightarrow> string \<Rightarrow> string option \<Rightarrow> call_log list \<Rightarrow> call_log list option" where
  "insert_call_log callId voucherId phoneNumber countryCode callType dev cs =
     (case (varchar 50 callId, varchar 20 phoneNumber, varchar 5 countryCode, varchar 20 callType) of
        (Some cid, Some phone, Some country, Some ctype) \<Rightarrow>
          if cid \<in> set (map call_id cs) then None
          else Some (cs @ [\<lparr>call_id = cid, voucher_id = Some voucherId, phone_number = phone,
                            country_code = country, call_type = ctype, duration_seconds = 0,
                            status = ''active'', ended_at = None, cl_device_id = dev\<rparr>])
      | _ \<Rightarrow> None)"

text \<open>
  \<open>callId\<close> is the value of \<^verbatim>\<open>uuidv4()\<close>. The voucher select throws when the voucher
  id of the request is no \<^verbatim>\<open>UUID\<close>; the audit insert, whose \<^verbatim>\<open>entity_id\<close> column is
  a \<^verbatim>\<open>UUID\<close>, throws when the call id is none, after the call row is written.
\<close>

definition start_call :: "platform \<Rightarrow> db \<Rightarrow> string option \<Rightarrow> string option \<Rightarrow> string option \<Rightarrow> string option \<Rightarrow> string \<Rightarrow> start_data reply \<times> db" where
  "start_call pf s voucherId_field phoneNumber countryCode callType callId =
     (if falsy_str voucherId_field \<or> falsy_str phoneNumber \<or> falsy_str countryCode \<or> falsy_str callType
      then (SendError ''All fields are required'' 400, s)
      else
        (case uuid_in pf (the voucherId_field) of
           None \<Rightarrow> (SendError ''Internal server error'' 500, s)
         | Some voucherId \<Rightarrow>
             (case filter (\<lambda>v. v_id v = voucherId \<and> is_active v \<and> \<not> is_used v) (vouchers s) of
                [] \<Rightarrow> (SendError ''Invalid or expired voucher'' 400, s)
              | voucher # _ \<Rightarrow>
                  if remaining_minutes voucher \<le> 0
                  then (SendError ''No minutes remaining on voucher'' 400, s)
                  else
                    (case insert_call_log callId voucherId (the phoneNumber) (the countryCode)
                            (the callType) (device_id voucher) (call_logs s) of
                       None \<Rightarrow> (SendError ''Internal server error'' 500, s)
                     | Some cs \<Rightarrow>
                         (case uuid_in pf callId of
                            None \<Rightarrow> (SendError ''Internal server error'' 500, s\<lparr>call_logs := cs\<rparr>)
                          | Some entity \<Rightarrow>
                              (SendResponse \<lparr>sd_callId = callId,
                                  sd_remainingMinutes = remaining_minutes voucher\<rparr>,
                               insert_system_log
                                 \<lparr>action = ''call_started'', entity_type = ''call'',
                                  entity_id = entity, admin_user_id = None,
                                  log_details = CallStarted (the phoneNumber) (the callType)\<rparr>
                                 (s\<lparr>call_logs := cs\<rparr>)))))))"

subsection \<open>POST /api/v1/calls/end\<close>

record end_data =
  ed_success :: bool
  ed_remainingMinutes :: int

text \<open>
  \<^verbatim>\<open>Math.ceil(actualDurationSeconds / 60)\<close>. The quotient of an integer by 60 is either
  an integer or at least 1/60 away from one, so the rounding of the floating-point
  division does not move the ceiling and the real quotient gives the same value.
\<close>

definition minutesUsed :: "int \<Rightarrow> int" where
  "minutesUsed actualDurationSeconds = \<lceil>real_of_int actualDurationSeconds / 60\<rceil>"

text \<open>
  \<^verbatim>\<open>UPDATE call_logs SET duration_seconds = $1, status = 'completed', ended_at = CURRENT_TIMESTAMP
  WHERE call_id = $2\<close>.
\<close>

definition complete_call :: "int \<Rightarrow> timestamp \<Rightarrow> string \<Rightarrow> call_log list \<Rightarrow> call_log list" where
  "complete_call actualDurationSeconds now callId cs =
     map (\<lambda>c. if call_id c = callId
               then c\<lparr>duration_seconds := actualDurationSeconds, status := ''completed'',
                      ended_at := Some now\<rparr>
               else c) cs"

text \<open>
  The \<^verbatim>\<open>SET\<close> clause of the voucher update on one row; every right-hand side reads
  the row as it was before the update.
\<close>

definition debit_row :: "int \<Rightarrow> timestamp \<Rightarrow> voucher \<Rightarrow> voucher" where
  "debit_row m now v =
     v\<lparr>remaining_minutes := max 0 (remaining_minutes v - m),
       is_used := (if remaining_minutes v - m \<le> 0 then True else is_used v),
       used_at := (if remaining_minutes v - m \<le> 0 \<and> used_at v = None then Some now
                   else used_at v)\<rparr>"

text \<open>
  The subtraction \<^verbatim>\<open>remaining_minutes - $1\<close> is \<^verbatim>\<open>INTEGER\<close> arithmetic: on a row of
  the voucher it must stay in range, or the update throws.
\<close>

definition debit_fits :: "uuid option \<Rightarrow> int \<Rightarrow> voucher list \<Rightarrow> bool" where
  "debit_fits voucherId m vs =
     list_all (\<lambda>v. int4 (remaining_minutes v - m)) (filter (\<lambda>v. Some (v_id v) = voucherId) vs)"

text \<open>
  \<^verbatim>\<open>UPDATE vouchers SET ... WHERE id = $2 RETURNING remaining_minutes\<close>: the table after
  the update and the returned rows, or \<open>None\<close> when the update throws. A \<^verbatim>\<open>NULL\<close> id
  matches no row.
\<close>

definition debit :: "uuid option \<Rightarrow> int \<Rightarrow> timestamp \<Rightarrow> voucher list \<Rightarrow> (voucher list \<times> int list) option" where
  "debit voucherId m now vs =
     (if debit_fits voucherId m vs
      then Some (map (\<lambda>v. if Some (v_id v) = voucherId then debit_row m now v else v) vs,
                 map (\<lambda>v. remaining_minutes (debit_row m now v))
                   (filter (\<lambda>v. Some (v_id v) = voucherId) vs))
      else None)"

text \<open>\<^verbatim>\<open>voucherResult.rows[0]?.remaining_minutes || 0\<close>.\<close>

definition first_remaining :: "int list \<Rightarrow> int" where
  "first_remaining rows = (case rows of [] \<Rightarrow> 0 | r # _ \<Rightarrow> (if r = 0 then 0 else r))"

text \<open>
  The call select throws on a call id with NUL; the call update throws on a duration
  outside \<^verbatim>\<open>INTEGER\<close>; the voucher update throws on an overflow, after the call row
  is written; the audit insert throws when the call id is no \<^verbatim>\<open>UUID\<close>, after both
  updates.
\<close>

definition end_call :: "platform \<Rightarrow> db \<Rightarrow> string option \<Rightarrow> int option \<Rightarrow> timestamp \<Rightarrow> end_data reply \<times> db" where
  "end_call pf s callId_field actualDurationSeconds now =
     (if falsy_str callId_field \<or> actualDurationSeconds = None
      then (SendError ''CallId and actualDurationSeconds are required'' 400, s)
      else if \<not> text_ok (the callId_field)
      then (SendError ''Internal server error'' 500, s)
      else
        (case filter (\<lambda>c. call_id c = the callId_field) (call_logs s) of
           [] \<Rightarrow> (SendError ''Call not found'' 400, s)
         | row # _ \<Rightarrow>
             (let voucherId = voucher_id row;
                  m = minutesUsed (the actualDurationSeconds)
              in if \<not> int4 (the actualDurationSeconds)
                 then (SendError ''Internal server error'' 500, s)
                 else
                   (let s1 = s\<lparr>call_logs := complete_call (the actualDurationSeconds) now
                                                 (the callId_field) (call_logs s)\<rparr>
                    in case debit voucherId m now (vouchers s1) of
                         None \<Rightarrow> (SendError ''Internal server error'' 500, s1)
                       | Some voucherResult \<Rightarrow>
                           (let s2 = s1\<lparr>vouchers := fst voucherResult\<rparr>;
                                remainingMinutes = first_remaining (snd voucherResult)
                            in case uuid_in pf (the callId_field) of
                                 None \<Rightarrow> (SendError ''Internal server error'' 500, s2)
                               | Some entity \<Rightarrow>
                                   (SendResponse \<lparr>ed_success = True,
                                       ed_remainingMinutes = remainingMinutes\<rparr>,
                                    insert_system_log
                                      \<lparr>action = ''call_ended'', entity_type = ''call'',
                                       entity_id = entity, admin_user_id = None,
                                       log_details = CallEnded (the actualDurationSeconds) m\<rparr>
                                      s2))))))"

subsection \<open>POST /api/v1/admin/vouchers/generate\<close>

record generate_data =
  gd_code :: string
  gd_durationMinutes :: int

text \<open>
  \<open>admin\<close> is \<^verbatim>\<open>req.admin.id\<close>. The handler does not return (\<open>None\<close>) while the
  uniqueness loop runs.
\<close>

definition generate_voucher :: "db \<Rightarrow> int option \<Rightarrow> uuid \<Rightarrow> (nat \<Rightarrow> nat) list \<Rightarrow> uuid \<Rightarrow> (generate_data reply \<times> db) option" where
  "generate_voucher s durationMinutes admin rand new_id =
     (if falsy_num durationMinutes \<or> the durationMinutes \<le> 0
      then Some (SendError ''Valid durationMinutes is required'' 400, s)
      else
        (case ensure_unique_code rand (vouchers s) of
           None \<Rightarrow> None
         | Some (c, _) \<Rightarrow>
             (case insert_voucher new_id c (the durationMinutes) admin None (vouchers s) of
                None \<Rightarrow> Some (SendError ''Internal server error'' 500, s)
              | Some vs \<Rightarrow>
                  Some (SendResponse \<lparr>gd_code = c, gd_durationMinutes = the durationMinutes\<rparr>,
                        insert_system_log
                          \<lparr>action = ''voucher_created'', entity_type = ''voucher'',
                           entity_id = new_id, admin_user_id = Some admin,
                           log_details = VoucherCreated (the durationMinutes) c\<rparr>
                          (s\<lparr>vouchers := vs\<rparr>)))))"

subsection \<open>POST /api/v1/admin/vouchers/batch\<close>

record batch_data =
  bd_codes :: "string list"
  bd_total :: nat

text \<open>
  What one batch request draws from outside: the admin of the token, the id the
  database gives the batch row, the id it gives the voucher row of round \<open>i\<close>, and
  whether the voucher insert of round \<open>i\<close> is made to fail (a fault of the storage).
\<close>

record batch_env =
  admin_id :: uuid
  new_batch_id :: uuid
  new_voucher_id :: "int \<Rightarrow> uuid"
  insert_fails :: "int \<Rightarrow> bool"

text \<open>
  \<^verbatim>\<open>INSERT INTO voucher_batches (quantity, duration_minutes, created_by)\<close>; fails on a
  primary key that is already in the table and on a number outside \<^verbatim>\<open>INTEGER\<close>.
\<close>

definition insert_voucher_batch :: "uuid \<Rightarrow> int \<Rightarrow> int \<Rightarrow> uuid \<Rightarrow> voucher_batch list \<Rightarrow> voucher_batch list option" where
  "insert_voucher_batch new_id quantity durationMinutes admin bs =
     (if new_id \<in> set (map b_id bs) \<or> \<not> int4 quantity \<or> \<not> int4 durationMinutes then None
      else Some (bs @ [\<lparr>b_id = new_id, b_quantity = quantity,
                        b_duration_minutes = durationMinutes, b_created_by = admin\<rparr>]))"

text \<open>
  The loop \<^verbatim>\<open>for (let i = 0; i < quantity; i++)\<close> inside the transaction, on the
  voucher table as the transaction sees it. \<open>None\<close>: a uniqueness loop is still running;
  \<open>Some None\<close>: a query threw; \<open>Some (Some (vs, codes))\<close>: the loop is done.
\<close>

function generate_vouchers :: "int \<Rightarrow> int \<Rightarrow> int \<Rightarrow> batch_env \<Rightarrow> (nat \<Rightarrow> nat) list \<Rightarrow> voucher list \<Rightarrow> string list \<Rightarrow> (voucher list \<times> string list) option option" where
  "generate_vouchers i quantity durationMinutes env rand vs codes =
     (if i < quantity then
        (case ensure_unique_code rand vs of
           None \<Rightarrow> None
         | Some (c, rand') \<Rightarrow>
             if insert_fails env i then Some None
             else
               (case insert_voucher (new_voucher_id env i) c durationMinutes (admin_id env)
                       (Some (new_batch_id env)) vs of
                  None \<Rightarrow> Some None
                | Some vs' \<Rightarrow>
                    generate_vouchers (i + 1) quantity durationMinutes env rand' vs' (codes @ [c])))
      else Some (Some (vs, codes)))"
  by pat_completeness auto
termination
  by (relation "measure (\<lambda>(i, quantity, _). nat (quantity - i))") auto

text \<open>
  \<^verbatim>\<open>BEGIN\<close> ... \<^verbatim>\<open>COMMIT\<close>: the reply carries the database of the commit; on a throw the
  \<^verbatim>\<open>ROLLBACK\<close> leaves the database as it was at \<^verbatim>\<open>BEGIN\<close>.
\<close>

definition generate_batch :: "db \<Rightarrow> int option \<Rightarrow> int option \<Rightarrow> batch_env \<Rightarrow> (nat \<Rightarrow> nat) list \<Rightarrow> (batch_data reply \<times> db) option" where
  "generate_batch s quantity durationMinutes env rand =
     (if falsy_num quantity \<or> the quantity \<le> 0 \<or> falsy_num durationMinutes \<or> the durationMinutes \<le> 0
      then Some (SendError ''Valid quantity and durationMinutes are required'' 400, s)
      else if the quantity > 1000
      then Some (SendError ''Maximum 1000 vouchers per batch'' 400, s)
      else
        (case insert_voucher_batch (new_batch_id env) (the quantity) (the durationMinutes)
                (admin_id env) (voucher_batches s) of
           None \<Rightarrow> Some (SendError ''Internal server error'' 500, s)
         | Some bs \<Rightarrow>
             (case generate_vouchers 0 (the quantity) (the durationMinutes) env rand (vouchers s) [] of
                None \<Rightarrow> None
              | Some None \<Rightarrow> Some (SendError ''Internal server error'' 500, s)
              | Some (Some (vs, codes)) \<Rightarrow>
                  Some (SendResponse \<lparr>bd_codes = codes, bd_total = length codes\<rparr>,
                        insert_system_log
                          \<lparr>action = ''voucher_batch_created'', entity_type = ''voucher_batch'',
                           entity_id = new_batch_id env, admin_user_id = Some (admin_id env),
                           log_details = VoucherBatchCreated (the quantity) (the durationMinutes)\<rparr>
                          (s\<lparr>voucher_batches := bs, vouchers := vs\<rparr>)))))"

subsection \<open>Runs of the service\<close>

text \<open>
  The requests that write to the voucher and call tables, each with what it draws from
  outside. The other endpoints (login, the two listings, health) write to neither.
\<close>

datatype request =
    ValidateVoucher "string option" "string option"
  | StartCall "string option" "string option" "string option" "string option" string
  | EndCall "string option" "int option" timestamp
  | GenerateVoucher "int option" uuid "(nat \<Rightarrow> nat) list" uuid
  | GenerateBatch "int option" "int option" batch_env "(nat \<Rightarrow> nat) list"

text \<open>The database after a request; \<open>None\<close> when the handler does not return.\<close>

fun handle :: "platform \<Rightarrow> db \<Rightarrow> request \<Rightarrow> db option" where
  "handle pf s (ValidateVoucher c d) = Some (snd (validate_voucher pf s c d))"
| "handle pf s (StartCall v p cc ct callId) = Some (snd (start_call pf s v p cc ct callId))"
| "handle pf s (EndCall c d now) = Some (snd (end_call pf s c d now))"
| "handle pf s (GenerateVoucher dm admin rand new_id) =
     map_option snd (generate_voucher s dm admin rand new_id)"
| "handle pf s (GenerateBatch q dm env rand) = map_option snd (generate_batch s q dm env rand)"

fun run :: "platform \<Rightarrow> db \<Rightarrow> request list \<Rightarrow> db option" where
  "run pf s [] = Some s"
| "run pf s (r # rs) = (case handle pf s r of None \<Rightarrow> None | Some s' \<Rightarrow> run pf s' rs)"

subsection \<open>A concrete platform and concrete databases\<close>

text \<open>
  For the examples: uppercase on ASCII letters, and the reading of a \<^verbatim>\<open>UUID\<close> in its
  canonical lower-case spelling (8-4-4-4-12 hexadecimal digits), which the database
  prints back unchanged. On the texts of the examples, which are ASCII and spell their
  ids canonically, these are the functions of the platform.
\<close>

definition upper_ascii_char :: "char \<Rightarrow> char" where
  "upper_ascii_char c =
     (let n = (of_char c :: nat) in if 97 \<le> n \<and> n \<le> 122 then char_of (n - 32) else c)"

definition upper_ascii :: "string \<Rightarrow> string" where
  "upper_ascii s = map upper_ascii_char s"

definition is_hex :: "char \<Rightarrow> bool" where
  "is_hex c = (c \<in> set ''0123456789abcdef'')"

definition canonical_uuid :: "string \<Rightarrow> uuid option" where
  "canonical_uuid s =
     (if length s = 36
         \<and> list_all is_hex (take 8 s) \<and> take 1 (drop 8 s) = ''-''
         \<and> list_all is_hex (take 4 (drop 9 s)) \<and> take 1 (drop 13 s) = ''-''
         \<and> list_all is_hex (take 4 (drop 14 s)) \<and> take 1 (drop 18 s) = ''-''
         \<and> list_all is_hex (take 4 (drop 19 s)) \<and> take 1 (drop 23 s) = ''-''
         \<and> list_all is_hex (drop 24 s)
      then Some s else None)"

definition ascii_platform :: platform where
  "ascii_platform = \<lparr>toUpperCase = upper_ascii, uuid_in = canonical_uuid\<rparr>"

definition admin1 :: uuid where
  "admin1 = ''00000000-0000-4000-8000-0000000000ad''"

definition voucher1_id :: uuid where
  "voucher1_id = ''00000000-0000-4000-8000-0000000000a1''"

definition voucher2_id :: uuid where
  "voucher2_id = ''00000000-0000-4000-8000-0000000000a2''"

definition voucher3_id :: uuid where
  "voucher3_id = ''00000000-0000-4000-8000-0000000000a3''"

definition batch1_id :: uuid where
  "batch1_id = ''00000000-0000-4000-8000-0000000000b1''"

definition call1_id :: string where
  "call1_id = ''00000000-0000-4000-8000-0000000000c1''"

text \<open>A device id of 101 characters.\<close>

definition long_device_id :: string where
  "long_device_id = replicate 101 CHR ''x''"

text \<open>
  One voucher of 60 minutes as \<^verbatim>\<open>/admin/vouchers/generate\<close> creates it, then one
  active call on it as \<^verbatim>\<open>/calls/start\<close> creates it, and the same call after its
  voucher was deleted (\<^verbatim>\<open>ON DELETE SET NULL\<close>), beside another voucher.
\<close>

definition voucher1 :: voucher where
  "voucher1 = \<lparr>v_id = voucher1_id, code = ''AAAAAAAAAAAA'', duration_minutes = 60,
      remaining_minutes = 60, is_used = False, is_active = True, device_id = None,
      used_at = None, created_by = admin1, batch_id = None\<rparr>"

definition call1 :: call_log where
  "call1 = \<lparr>call_id = call1_id, voucher_id = Some voucher1_id, phone_number = ''555'',
      country_code = ''1'', call_type = ''local'', duration_seconds = 0,
      status = ''active'', ended_at = None, cl_device_id = None\<rparr>"

definition db_voucher :: db where
  "db_voucher = \<lparr>vouchers = [voucher1], call_logs = [], voucher_batches = [],
      system_logs = [\<lparr>action = ''voucher_created'', entity_type = ''voucher'',
         entity_id = voucher1_id, admin_user_id = Some admin1,
         log_details = VoucherCreated 60 ''AAAAAAAAAAAA''\<rparr>]\<rparr>"

definition db_call :: db where
  "db_call = db_voucher\<lparr>call_logs := [call1],
      system_logs := system_logs db_voucher @
        [\<lparr>action = ''call_started'', entity_type = ''call'', entity_id = call1_id,
          admin_user_id = None, log_details = CallStarted ''555'' ''local''\<rparr>]\<rparr>"

definition db_orphan_call :: db where
  "db_orphan_call =
     \<lparr>vouchers = [voucher1\<lparr>v_id := voucher2_id, code := ''CCCCCCCCCCCC''\<rparr>],
      call_logs = [call1\<lparr>voucher_id := None\<rparr>],
      voucher_batches = [], system_logs = []\<rparr>"

text \<open>
  A batch request by \<open>admin1\<close> whose inserts all go through, the same with the insert of
  round 1 made to fail, and a random source that draws the codes \<open>A...A\<close>, \<open>C...C\<close>
  and \<open>D...D\<close>.
\<close>

definition batch_env_ok :: batch_env where
  "batch_env_ok = \<lparr>admin_id = admin1, new_batch_id = batch1_id,
      new_voucher_id = (\<lambda>i. if i = 0 then voucher2_id else voucher3_id),
      insert_fails = (\<lambda>i. False)\<rparr>"

definition batch_env_fault :: batch_env where
  "batch_env_fault = batch_env_ok\<lparr>insert_fails := (\<lambda>i. i = 1)\<rparr>"

definition rand3 :: "(nat \<Rightarrow> nat) list" where
  "rand3 = [\<lambda>i. 0, \<lambda>i. 2, \<lambda>i. 3]"

lemmas id_defs = admin1_def voucher1_id_def voucher2_id_def voucher3_id_def batch1_id_def
  call1_id_def

lemmas scenario_defs = db_call_def db_voucher_def voucher1_def call1_def db_orphan_call_def
  id_defs

subsection \<open>Steps of the tables\<close>

text \<open>A request whose \<^verbatim>\<open>actualDurationSeconds\<close>, if it has one, is not negative.\<close>

fun nonneg_duration :: "request \<Rightarrow> bool" where
  "nonneg_duration (EndCall c d now) = (case d of None \<Rightarrow> True | Some n \<Rightarrow> 0 \<le> n)"
| "nonneg_duration _ = True"

text \<open>
  How a request may change a voucher row (\<open>nn\<close>: the request has no negative
  duration), the voucher table and the call table: rows are rewritten in place and new
  rows are appended.
\<close>

definition row_step :: "bool \<Rightarrow> voucher \<Rightarrow> voucher \<Rightarrow> bool" where
  "row_step nn v v' =
     (v_id v' = v_id v \<and> duration_minutes v' = duration_minutes v
      \<and> (0 \<le> remaining_minutes v \<longrightarrow> 0 \<le> remaining_minutes v')
      \<and> (remaining_minutes v \<le> 2147483647 \<longrightarrow> remaining_minutes v' \<le> 2147483647)
      \<and> (nn \<longrightarrow> 0 \<le> remaining_minutes v \<longrightarrow> remaining_minutes v' \<le> remaining_minutes v))"

definition table_step :: "bool \<Rightarrow> voucher list \<Rightarrow> voucher list \<Rightarrow> bool" where
  "table_step nn vs vs' =
     (\<exists>g new. vs' = map g vs @ new \<and> (\<forall>v\<in>set vs. row_step nn v (g v))
        \<and> (\<forall>v\<in>set new. remaining_minutes v = duration_minutes v \<and> 0 < duration_minutes v
              \<and> duration_minutes v \<le> 2147483647))"

definition calls_step :: "voucher list \<Rightarrow> call_log list \<Rightarrow> call_log list \<Rightarrow> bool" where
  "calls_step vs cs cs' =
     (\<exists>f new. cs' = map f cs @ new
        \<and> (\<forall>c. voucher_id (f c) = voucher_id c
                 \<and> (status (f c) = status c \<or> status (f c) = ''completed''))
        \<and> (\<forall>c\<in>set new. status c = ''active'' \<and> (\<exists>v\<in>set vs. voucher_id c = Some (v_id v))))"

text \<open>
  Debits of one voucher, each one voucher update with its minutes and its time, applied
  one after the other; \<open>None\<close> when an update throws.
\<close>

fun debits :: "uuid option \<Rightarrow> (int \<times> timestamp) list \<Rightarrow> voucher list \<Rightarrow> voucher list option" where
  "debits voucherId [] vs = Some vs"
| "debits voucherId (d # ds) vs =
     (case debit voucherId (fst d) (snd d) vs of
        None \<Rightarrow> None
      | Some r \<Rightarrow> debits voucherId ds (fst r))"

section \<open>Properties\<close>

subsection \<open>Evaluation and basic facts\<close>

lemma minutesUsed_div: "minutesUsed d = - ((- d) div 60)"
  unfolding minutesUsed_def using ceiling_divide_eq_div [of d 60, where ?'a = real] by simp


lemma minutesUsed_nonneg: "0 \<le> d \<Longrightarrow> 0 \<le> minutesUsed d"
  by (simp add: minutesUsed_div)



lemma generateVoucherCode_zero: "generateVoucherCode (\<lambda>i. 0) = ''AAAAAAAAAAAA''"
  by (simp add: generateVoucherCode_def charAt_def chars_def upt_rec)

lemma generateVoucherCode_two: "generateVoucherCode (\<lambda>i. 2) = ''CCCCCCCCCCCC''"
  by (simp add: generateVoucherCode_def charAt_def chars_def upt_rec)

lemma generateVoucherCode_three: "generateVoucherCode (\<lambda>i. 3) = ''DDDDDDDDDDDD''"
  by (simp add: generateVoucherCode_def charAt_def chars_def upt_rec)

lemma upper_ascii_lower_a: "upper_ascii ''aaaaaaaaaaaa'' = ''AAAAAAAAAAAA''"
  by code_simp

lemma upper_ascii_upper_a: "upper_ascii ''AAAAAAAAAAAA'' = ''AAAAAAAAAAAA''"
  by code_simp

lemma canonical_uuid_call1: "canonical_uuid call1_id = Some call1_id"
  by (simp add: canonical_uuid_def call1_id_def is_hex_def)

lemma canonical_uuid_voucher1: "canonical_uuid voucher1_id = Some voucher1_id"
  by (simp add: canonical_uuid_def voucher1_id_def is_hex_def)

lemma call1_id_nonempty: "call1_id \<noteq> []"
  by (simp add: call1_id_def)

lemma text_ok_call1: "text_ok call1_id"
  by (simp add: text_ok_def call1_id_def)

lemma varchar_fits: "text_ok s \<Longrightarrow> char_length s \<le> n \<Longrightarrow> varchar n s = Some s"
  by (simp add: varchar_def)

lemma char_length_le: "char_length s \<le> length s"
  by (simp add: char_length_def)

lemma varchar_call1: "varchar 50 call1_id = Some call1_id"
  by (rule varchar_fits [OF text_ok_call1])
     (rule order_trans [OF char_length_le], simp add: call1_id_def)

lemma toUpperCase_ascii_platform [simp]: "toUpperCase ascii_platform = upper_ascii"
  by (simp add: ascii_platform_def)

lemma uuid_in_ascii_platform [simp]: "uuid_in ascii_platform = canonical_uuid"
  by (simp add: ascii_platform_def)


lemma vouchers_insert_system_log [simp]: "vouchers (insert_system_log l s) = vouchers s"
  by (simp add: insert_system_log_def)

lemma call_logs_insert_system_log [simp]: "call_logs (insert_system_log l s) = call_logs s"
  by (simp add: insert_system_log_def)

lemma voucher_batches_insert_system_log [simp]:
  "voucher_batches (insert_system_log l s) = voucher_batches s"
  by (simp add: insert_system_log_def)

lemma v_id_debit_row [simp]: "v_id (debit_row m now v) = v_id v"
  by (simp add: debit_row_def)

lemma duration_debit_row [simp]: "duration_minutes (debit_row m now v) = duration_minutes v"
  by (simp add: debit_row_def)

lemma remaining_debit_row:
  "remaining_minutes (debit_row m now v) = max 0 (remaining_minutes v - m)"
  by (simp add: debit_row_def)

lemma debit_fits_iff:
  "debit_fits voucherId m vs \<longleftrightarrow>
     (\<forall>v\<in>set vs. Some (v_id v) = voucherId \<longrightarrow> int4 (remaining_minutes v - m))"
  by (auto simp add: debit_fits_def list_all_iff)

lemma debit_Some:
  assumes "debit_fits voucherId m vs"
  shows "debit voucherId m now vs =
     Some (map (\<lambda>v. if Some (v_id v) = voucherId then debit_row m now v else v) vs,
           map (\<lambda>v. remaining_minutes (debit_row m now v))
             (filter (\<lambda>v. Some (v_id v) = voucherId) vs))"
  using assms by (simp add: debit_def)

lemma debit_no_row:
  assumes "\<forall>v\<in>set vs. Some (v_id v) \<noteq> voucherId"
  shows "debit voucherId m now vs = Some (vs, [])"
proof -
  from assms have "debit_fits voucherId m vs" by (simp add: debit_fits_iff)
  moreover from assms have "filter (\<lambda>v. Some (v_id v) = voucherId) vs = []"
    by (simp add: filter_empty_conv)
  ultimately show ?thesis using assms by (simp add: debit_def map_idI)
qed


subsection \<open>Ending a call\<close>


text \<open>What \<open>end_call\<close> can leave behind, over all its branches.\<close>

lemma end_call_cases:
  obtains (unchanged) "snd (end_call pf s c d now) = s"
  | (written) callId n and row :: call_log where "d = Some n"
      and "call_logs (snd (end_call pf s c d now)) = complete_call n now callId (call_logs s)"
      and "vouchers (snd (end_call pf s c d now)) = vouchers s
            \<or> debit_fits (voucher_id row) (minutesUsed n) (vouchers s)
              \<and> vouchers (snd (end_call pf s c d now)) =
                  map (\<lambda>v. if Some (v_id v) = voucher_id row
                            then debit_row (minutesUsed n) now v else v) (vouchers s)"
proof (cases "falsy_str c \<or> d = None \<or> \<not> text_ok (the c)
    \<or> filter (\<lambda>x. call_id x = the c) (call_logs s) = [] \<or> \<not> int4 (the d)")
  case True
  then have "snd (end_call pf s c d now) = s"
    by (auto simp add: end_call_def Let_def split: list.splits)
  then show ?thesis by (rule unchanged)
next
  case False
  then obtain callId n row rest where c: "c = Some callId" and d: "d = Some n"
    and found: "filter (\<lambda>x. call_id x = callId) (call_logs s) = row # rest"
    and ok: "callId \<noteq> []" "text_ok callId" "int4 n"
    by (cases c; cases d; cases "filter (\<lambda>x. call_id x = the c) (call_logs s)")
       (auto simp add: falsy_str_def)
  have calls: "call_logs (snd (end_call pf s c d now)) = complete_call n now callId (call_logs s)"
    using found ok
    by (simp add: c d end_call_def falsy_str_def Let_def split: option.splits)
  have after: "vouchers (snd (end_call pf s c d now)) = vouchers s
      \<or> debit_fits (voucher_id row) (minutesUsed n) (vouchers s)
        \<and> vouchers (snd (end_call pf s c d now)) =
            map (\<lambda>v. if Some (v_id v) = voucher_id row
                      then debit_row (minutesUsed n) now v else v) (vouchers s)"
  proof (cases "debit_fits (voucher_id row) (minutesUsed n) (vouchers s)")
    case True
    then show ?thesis using found ok
      by (simp add: c d end_call_def falsy_str_def Let_def debit_Some split: option.splits)
  next
    case False
    then show ?thesis using found ok
      by (simp add: c d end_call_def falsy_str_def Let_def debit_def)
  qed
  show ?thesis by (rule written [OF d calls after])
qed


lemmas db_defs = db_call_def db_voucher_def voucher1_def call1_def db_orphan_call_def

lemmas end_call_eval = end_call_def falsy_str_def complete_call_def debit_def debit_fits_def
  debit_row_def minutesUsed_div first_remaining_def insert_system_log_def Let_def int4_def
  call1_id_nonempty text_ok_call1 canonical_uuid_call1










subsection \<open>Validating a voucher\<close>

lemma find_filter:
  "find P xs = (case filter P xs of [] \<Rightarrow> None | x # _ \<Rightarrow> Some x)"
  by (induction xs) simp_all

lemma text_ok_code_a: "text_ok ''AAAAAAAAAAAA''"
  by (simp add: text_ok_def)

lemma varchar_deviceA: "varchar 100 ''deviceA'' = Some ''deviceA''"
  by code_simp

lemma varchar_deviceB: "varchar 100 ''deviceB'' = Some ''deviceB''"
  by code_simp

lemma varchar_too_long: "varchar 100 long_device_id = None"
  by code_simp

lemma long_device_id_nonempty: "long_device_id \<noteq> []"
  by (simp add: long_device_id_def)

lemma varchar_trailing_spaces:
  "varchar 5 ''abcde   '' = Some ''abcde''" "varchar 5 ''abcdef '' = None"
  by code_simp+

lemmas validate_eval = validate_voucher_def falsy_str_def upper_ascii_lower_a upper_ascii_upper_a
  text_ok_code_a varchar_deviceA varchar_deviceB select_validate_row_def row_device_id_def
  update_device_id_def invalid_data_def

text \<open>
  Claim C6, as the code has it. A missing or empty code or device id is answered with
  the error of status 400. Otherwise, when the uppercased code is a text the database
  takes (no NUL), the reply is a normal response with \<open>valid = false\<close> when no voucher has
  the uppercased code, or the first such voucher is inactive, used or without minutes;
  for a valid voucher it is \<open>valid = true\<close> with that voucher's remaining minutes and id
  when the device id fits the column \<^verbatim>\<open>VARCHAR(100)\<close>, and the error of status 500
  when it does not. An uppercased code with NUL is answered with the error of status
  500.
\<close>

theorem validate_voucher_reply:
  "(falsy_str code_field \<or> falsy_str deviceId_field \<longrightarrow>
      validate_voucher pf s code_field deviceId_field =
        (SendError ''Code and deviceId are required'' 400, s))
   \<and> (c \<noteq> [] \<and> d \<noteq> [] \<and> text_ok (toUpperCase pf c) \<longrightarrow>
        fst (validate_voucher pf s (Some c) (Some d)) =
          (case find (\<lambda>v. code v = toUpperCase pf c) (vouchers s) of
             None \<Rightarrow>
               SendResponse \<lparr>vd_valid = False, vd_durationMinutes = 0, vd_voucherId = None\<rparr>
           | Some v \<Rightarrow>
               if \<not> is_active v \<or> is_used v \<or> remaining_minutes v \<le> 0
               then SendResponse \<lparr>vd_valid = False, vd_durationMinutes = 0, vd_voucherId = None\<rparr>
               else if varchar 100 d = None then SendError ''Internal server error'' 500
               else SendResponse \<lparr>vd_valid = True, vd_durationMinutes = remaining_minutes v,
                      vd_voucherId = Some (v_id v)\<rparr>))
   \<and> (c \<noteq> [] \<and> d \<noteq> [] \<and> \<not> text_ok (toUpperCase pf c) \<longrightarrow>
        validate_voucher pf s (Some c) (Some d) = (SendError ''Internal server error'' 500, s))"
proof -
  have missing: "validate_voucher pf s code_field deviceId_field =
        (SendError ''Code and deviceId are required'' 400, s)"
    if "falsy_str code_field \<or> falsy_str deviceId_field"
    using that by (simp add: validate_voucher_def)
  have nul: "validate_voucher pf s (Some c) (Some d) = (SendError ''Internal server error'' 500, s)"
    if "c \<noteq> [] \<and> d \<noteq> [] \<and> \<not> text_ok (toUpperCase pf c)"
    using that by (simp add: validate_voucher_def falsy_str_def)
  have reply: "fst (validate_voucher pf s (Some c) (Some d)) =
          (case find (\<lambda>v. code v = toUpperCase pf c) (vouchers s) of
             None \<Rightarrow>
               SendResponse \<lparr>vd_valid = False, vd_durationMinutes = 0, vd_voucherId = None\<rparr>
           | Some v \<Rightarrow>
               if \<not> is_active v \<or> is_used v \<or> remaining_minutes v \<le> 0
               then SendResponse \<lparr>vd_valid = False, vd_durationMinutes = 0, vd_voucherId = None\<rparr>
               else if varchar 100 d = None then SendError ''Internal server error'' 500
               else SendResponse \<lparr>vd_valid = True, vd_durationMinutes = remaining_minutes v,
                      vd_voucherId = Some (v_id v)\<rparr>)"
    if ok: "c \<noteq> [] \<and> d \<noteq> [] \<and> text_ok (toUpperCase pf c)"
  proof (cases "filter (\<lambda>v. code v = toUpperCase pf c) (vouchers s)")
    case Nil
    with ok show ?thesis
      by (simp add: validate_voucher_def falsy_str_def find_filter invalid_data_def)
  next
    case (Cons v rest)
    with ok show ?thesis
      by (cases "varchar 100 d")
         (simp_all add: validate_voucher_def falsy_str_def find_filter invalid_data_def
            select_validate_row_def row_device_id_def)
  qed
  from missing nul reply show ?thesis by blast
qed

text \<open>
  On \<open>db_voucher\<close>: a missing code, the code of the voucher in lower case, the same with
  a device id of 101 characters, and a code with NUL.
\<close>

theorem validate_voucher_reply_witness:
  "validate_voucher ascii_platform db_voucher None (Some ''deviceA'') =
     (SendError ''Code and deviceId are required'' 400, db_voucher)
   \<and> fst (validate_voucher ascii_platform db_voucher (Some ''aaaaaaaaaaaa'') (Some ''deviceA'')) =
     SendResponse \<lparr>vd_valid = True, vd_durationMinutes = 60, vd_voucherId = Some voucher1_id\<rparr>
   \<and> fst (validate_voucher ascii_platform db_voucher (Some ''aaaaaaaaaaaa'')
            (Some long_device_id)) =
     SendError ''Internal server error'' 500
   \<and> validate_voucher ascii_platform db_voucher (Some [CHR 0x00]) (Some ''deviceA'') =
     (SendError ''Internal server error'' 500, db_voucher)"
proof -
  have upper_nul: "upper_ascii [CHR 0x00] = [CHR 0x00]" by code_simp
  note long = long_device_id_nonempty
  from validate_voucher_reply [of None "Some ''deviceA''" ascii_platform db_voucher]
  have "validate_voucher ascii_platform db_voucher None (Some ''deviceA'') =
     (SendError ''Code and deviceId are required'' 400, db_voucher)"
    by (simp add: falsy_str_def)
  moreover
  from validate_voucher_reply [of _ _ ascii_platform db_voucher "''aaaaaaaaaaaa''" "''deviceA''"]
  have "fst (validate_voucher ascii_platform db_voucher (Some ''aaaaaaaaaaaa'') (Some ''deviceA'')) =
     SendResponse \<lparr>vd_valid = True, vd_durationMinutes = 60, vd_voucherId = Some voucher1_id\<rparr>"
    by (simp add: upper_ascii_lower_a text_ok_code_a varchar_deviceA db_voucher_def voucher1_def)
  moreover
  from validate_voucher_reply
    [of _ _ ascii_platform db_voucher "''aaaaaaaaaaaa''" long_device_id] long
  have "fst (validate_voucher ascii_platform db_voucher (Some ''aaaaaaaaaaaa'')
            (Some long_device_id)) = SendError ''Internal server error'' 500"
    by (simp add: upper_ascii_lower_a text_ok_code_a varchar_too_long db_voucher_def voucher1_def)
  moreover
  from validate_voucher_reply [of _ _ ascii_platform db_voucher "[CHR 0x00]" "''deviceA''"]
  have "validate_voucher ascii_platform db_voucher (Some [CHR 0x00]) (Some ''deviceA'') =
     (SendError ''Internal server error'' 500, db_voucher)"
    by (simp add: upper_nul text_ok_def)
  ultimately show ?thesis by blast
qed

text \<open>
  Claim C6 as stated fails on an empty field: the code of a valid voucher with an empty
  device id, and an empty code, are both answered with the error of status 400.
\<close>

theorem validate_voucher_error_counterexample:
  "fst (validate_voucher ascii_platform db_voucher (Some ''AAAAAAAAAAAA'') (Some [])) =
     SendError ''Code and deviceId are required'' 400
   \<and> fst (validate_voucher ascii_platform db_voucher (Some []) (Some ''deviceA'')) =
     SendError ''Code and deviceId are required'' 400"
  by (simp add: validate_voucher_def falsy_str_def)

text \<open>
  Claim C3 on the code. The first validation binds the voucher of \<open>db_voucher\<close> to
  \<open>deviceA\<close>. The row the handler reads has no \<open>device_id\<close> property, so the guard
  \<^verbatim>\<open>!voucher.device_id\<close> holds on every valid voucher, and the second validation, from
  \<open>deviceB\<close>, writes \<open>deviceB\<close> over the binding.
\<close>

theorem validate_voucher_rebinds_device:
  "map device_id
     (vouchers (snd (validate_voucher ascii_platform db_voucher
        (Some ''AAAAAAAAAAAA'') (Some ''deviceA''))))
     = [Some ''deviceA'']
   \<and> map device_id
       (vouchers (snd (validate_voucher ascii_platform
          (snd (validate_voucher ascii_platform db_voucher
             (Some ''AAAAAAAAAAAA'') (Some ''deviceA'')))
          (Some ''AAAAAAAAAAAA'') (Some ''deviceB''))))
     = [Some ''deviceB'']"
  by (simp add: validate_eval db_voucher_def voucher1_def)

text \<open>After the two validations the voucher is no longer bound to the first device.\<close>

theorem validate_voucher_rebinds_device_witness:
  "map device_id
     (vouchers (snd (validate_voucher ascii_platform
        (snd (validate_voucher ascii_platform db_voucher
           (Some ''AAAAAAAAAAAA'') (Some ''deviceA'')))
        (Some ''AAAAAAAAAAAA'') (Some ''deviceB''))))
     \<noteq> [Some ''deviceA'']"
  using validate_voucher_rebinds_device by simp

subsection \<open>Steps and invariants\<close>

declare generate_vouchers.simps [simp del]

lemma insert_voucher_Some:
  assumes "insert_voucher new_id c dm admin batch vs = Some vs'"
  shows "\<exists>v. vs' = vs @ [v] \<and> code v = c \<and> v_id v = new_id \<and> remaining_minutes v = dm
     \<and> duration_minutes v = dm \<and> batch_id v = batch \<and> \<not> is_used v \<and> is_active v
     \<and> c \<notin> set (map code vs) \<and> new_id \<notin> set (map v_id vs) \<and> int4 dm"
  using assms by (auto simp add: insert_voucher_def split: if_splits)

lemma generate_vouchers_appends:
  "generate_vouchers i q dm env rand vs codes = Some (Some (vs', codes')) \<Longrightarrow>
     \<exists>new. vs' = vs @ new \<and> codes' = codes @ map code new
       \<and> int (length new) = max 0 (q - i)
       \<and> (\<forall>v\<in>set new. remaining_minutes v = dm \<and> duration_minutes v = dm
             \<and> batch_id v = Some (new_batch_id env) \<and> \<not> is_used v \<and> is_active v \<and> int4 dm)
       \<and> distinct (map code new)
       \<and> set (map code new) \<inter> set (map code vs) = {}"
proof (induction i q dm env rand vs codes rule: generate_vouchers.induct)
  case (1 i q dm env rand vs codes)
  show ?case
  proof (cases "i < q")
    case False
    with "1.prems" have "vs' = vs" "codes' = codes"
      by (simp_all add: generate_vouchers.simps [of i q])
    with False show ?thesis by simp
  next
    case True
    from "1.prems" True obtain c rand' where
      unique: "ensure_unique_code rand vs = Some (c, rand')"
      by (auto simp add: generate_vouchers.simps [of i q] split: option.splits)
    from "1.prems" True unique have no_fault: "\<not> insert_fails env i"
      by (auto simp add: generate_vouchers.simps [of i q] split: if_splits)
    from "1.prems" True unique no_fault obtain vs1 where
      ins: "insert_voucher (new_voucher_id env i) c dm (admin_id env) (Some (new_batch_id env)) vs
              = Some vs1"
      and rest: "generate_vouchers (i + 1) q dm env rand' vs1 (codes @ [c]) = Some (Some (vs', codes'))"
      by (auto simp add: generate_vouchers.simps [of i q] split: option.splits)
    from insert_voucher_Some [OF ins] obtain v where
      v: "vs1 = vs @ [v]" "code v = c" "remaining_minutes v = dm" "duration_minutes v = dm"
         "batch_id v = Some (new_batch_id env)" "\<not> is_used v" "is_active v"
         "c \<notin> set (map code vs)" "int4 dm"
      by blast
    from "1.IH" [OF True unique refl no_fault ins rest] obtain new where
      new: "vs' = vs1 @ new" "codes' = (codes @ [c]) @ map code new"
        "int (length new) = max 0 (q - (i + 1))"
        "\<forall>v\<in>set new. remaining_minutes v = dm \<and> duration_minutes v = dm
             \<and> batch_id v = Some (new_batch_id env) \<and> \<not> is_used v \<and> is_active v \<and> int4 dm"
        "distinct (map code new)"
        "set (map code new) \<inter> set (map code vs1) = {}"
      by blast
    have "vs' = vs @ (v # new)" using new(1) v(1) by simp
    moreover have "codes' = codes @ map code (v # new)" using new(2) v(2) by simp
    moreover have "int (length (v # new)) = max 0 (q - i)" using new(3) True by simp
    moreover have "\<forall>x\<in>set (v # new). remaining_minutes x = dm \<and> duration_minutes x = dm
             \<and> batch_id x = Some (new_batch_id env) \<and> \<not> is_used x \<and> is_active x \<and> int4 dm"
      using new(4) v by simp
    moreover have "distinct (map code (v # new))" using new(5,6) v(1,2) by auto
    moreover have "set (map code (v # new)) \<inter> set (map code vs) = {}"
      using new(6) v(1,2,8) by auto
    ultimately show ?thesis by blast
  qed
qed

lemma row_step_refl: "row_step nn v v"
  by (simp add: row_step_def)

lemma row_step_device: "row_step nn v (v\<lparr>device_id := x\<rparr>)"
  by (simp add: row_step_def)

lemma row_step_debit:
  "(nn \<Longrightarrow> 0 \<le> m) \<Longrightarrow> int4 (remaining_minutes v - m) \<Longrightarrow> row_step nn v (debit_row m now v)"
  by (auto simp add: row_step_def debit_row_def int4_def)

lemma table_step_map:
  assumes "\<And>v. v \<in> set vs \<Longrightarrow> row_step nn v (g v)"
  shows "table_step nn vs (map g vs)"
  unfolding table_step_def using assms by (intro exI [of _ g] exI [of _ "[]"]) simp

lemma table_step_refl: "table_step nn vs vs"
  using table_step_map [of vs nn "\<lambda>v. v"] by (simp add: row_step_refl)

lemma table_step_append:
  assumes "\<forall>v\<in>set new. remaining_minutes v = duration_minutes v \<and> 0 < duration_minutes v
     \<and> duration_minutes v \<le> 2147483647"
  shows "table_step nn vs (vs @ new)"
  unfolding table_step_def using assms
  by (intro exI [of _ "\<lambda>v. v"] exI [of _ new]) (simp add: row_step_refl)

lemma validate_voucher_table_step:
  "table_step nn (vouchers s) (vouchers (snd (validate_voucher pf s c d)))"
proof -
  have "vouchers (snd (validate_voucher pf s c d)) = vouchers s
      \<or> (\<exists>x i. vouchers (snd (validate_voucher pf s c d)) = update_device_id x i (vouchers s))"
    by (auto simp add: validate_voucher_def split: list.splits option.splits)
  then show ?thesis
  proof
    assume "vouchers (snd (validate_voucher pf s c d)) = vouchers s"
    then show ?thesis by (simp add: table_step_refl)
  next
    assume "\<exists>x i. vouchers (snd (validate_voucher pf s c d)) = update_device_id x i (vouchers s)"
    then obtain x i where
      "vouchers (snd (validate_voucher pf s c d)) = update_device_id x i (vouchers s)"
      by blast
    then show ?thesis
      unfolding update_device_id_def
      by (simp add: table_step_map row_step_refl row_step_device)
  qed
qed

lemma start_call_vouchers: "vouchers (snd (start_call pf s v p cc ct callId)) = vouchers s"
  by (simp add: start_call_def split: list.splits option.splits)

lemma end_call_table_step:
  assumes "nn \<Longrightarrow> (case d of None \<Rightarrow> True | Some n \<Rightarrow> 0 \<le> n)"
  shows "table_step nn (vouchers s) (vouchers (snd (end_call pf s c d now)))"
proof (cases rule: end_call_cases [of pf s c d now])
  case unchanged
  then show ?thesis by (simp add: table_step_refl)
next
  case (written callId n row)
  from written(3) show ?thesis
  proof
    assume "vouchers (snd (end_call pf s c d now)) = vouchers s"
    then show ?thesis by (simp add: table_step_refl)
  next
    assume debited: "debit_fits (voucher_id row) (minutesUsed n) (vouchers s)
              \<and> vouchers (snd (end_call pf s c d now)) =
                  map (\<lambda>v. if Some (v_id v) = voucher_id row
                            then debit_row (minutesUsed n) now v else v) (vouchers s)"
    have nonneg: "nn \<Longrightarrow> 0 \<le> minutesUsed n"
      using assms written(1) by (simp add: minutesUsed_nonneg)
    have "row_step nn v (if Some (v_id v) = voucher_id row
        then debit_row (minutesUsed n) now v else v)" if "v \<in> set (vouchers s)" for v
      using that debited nonneg
      by (simp add: debit_fits_iff row_step_debit row_step_refl)
    then show ?thesis using debited by (simp add: table_step_map)
  qed
qed

lemma generate_voucher_table_step:
  assumes "generate_voucher s dm admin rand new_id = Some (r, s')"
  shows "table_step nn (vouchers s) (vouchers s')"
proof (cases "falsy_num dm \<or> the dm \<le> 0")
  case True
  with assms show ?thesis by (auto simp add: generate_voucher_def table_step_refl)
next
  case False
  with assms obtain c rand' where u: "ensure_unique_code rand (vouchers s) = Some (c, rand')"
    by (auto simp add: generate_voucher_def split: option.splits)
  show ?thesis
  proof (cases "insert_voucher new_id c (the dm) admin None (vouchers s)")
    case None
    with assms False u show ?thesis by (auto simp add: generate_voucher_def table_step_refl)
  next
    case (Some vs)
    from insert_voucher_Some [OF Some] obtain v where
      "vs = vouchers s @ [v]" "remaining_minutes v = the dm" "duration_minutes v = the dm"
      "int4 (the dm)"
      by blast
    moreover from assms False u Some have "vouchers s' = vs"
      by (auto simp add: generate_voucher_def)
    ultimately show ?thesis using False by (simp add: table_step_append int4_def)
  qed
qed

lemma generate_batch_cases:
  assumes "generate_batch s q dm env rand = Some (r, s')"
  shows "s' = s \<and> (\<exists>e n. r = SendError e n)
     \<or> (\<exists>bs vs codes.
           insert_voucher_batch (new_batch_id env) (the q) (the dm) (admin_id env) (voucher_batches s)
             = Some bs
         \<and> generate_vouchers 0 (the q) (the dm) env rand (vouchers s) [] = Some (Some (vs, codes))
         \<and> 0 < the q \<and> the q \<le> 1000 \<and> 0 < the dm
         \<and> r = SendResponse \<lparr>bd_codes = codes, bd_total = length codes\<rparr>
         \<and> vouchers s' = vs \<and> voucher_batches s' = bs \<and> call_logs s' = call_logs s)"
  using assms
  by (auto simp add: generate_batch_def split: if_splits option.splits)

lemma generate_batch_table_step:
  assumes "generate_batch s q dm env rand = Some (r, s')"
  shows "table_step nn (vouchers s) (vouchers s')"
  using generate_batch_cases [OF assms]
proof
  assume "s' = s \<and> (\<exists>e n. r = SendError e n)"
  then show ?thesis by (simp add: table_step_refl)
next
  assume "\<exists>bs vs codes.
           insert_voucher_batch (new_batch_id env) (the q) (the dm) (admin_id env) (voucher_batches s)
             = Some bs
         \<and> generate_vouchers 0 (the q) (the dm) env rand (vouchers s) [] = Some (Some (vs, codes))
         \<and> 0 < the q \<and> the q \<le> 1000 \<and> 0 < the dm
         \<and> r = SendResponse \<lparr>bd_codes = codes, bd_total = length codes\<rparr>
         \<and> vouchers s' = vs \<and> voucher_batches s' = bs \<and> call_logs s' = call_logs s"
  then obtain vs codes where
    loop: "generate_vouchers 0 (the q) (the dm) env rand (vouchers s) [] = Some (Some (vs, codes))"
    and pos: "0 < the dm" and vs: "vouchers s' = vs"
    by blast
  from generate_vouchers_appends [OF loop] obtain new where
    "vs = vouchers s @ new"
    "\<forall>v\<in>set new. remaining_minutes v = the dm \<and> duration_minutes v = the dm
        \<and> batch_id v = Some (new_batch_id env) \<and> \<not> is_used v \<and> is_active v \<and> int4 (the dm)"
    by blast
  with pos vs show ?thesis by (simp add: table_step_append int4_def)
qed

lemma handle_table_step:
  assumes "handle pf s r = Some s'"
  shows "table_step (nonneg_duration r) (vouchers s) (vouchers s')"
proof (cases r)
  case (ValidateVoucher c d)
  with assms show ?thesis using validate_voucher_table_step [of "nonneg_duration r" s pf c d] by auto
next
  case (StartCall v p cc ct callId)
  with assms show ?thesis using start_call_vouchers [of pf s v p cc ct callId]
    by (auto simp add: table_step_refl)
next
  case (EndCall c d now)
  with assms show ?thesis using end_call_table_step [of "nonneg_duration r" d s pf c now] by auto
next
  case (GenerateVoucher dm admin rand new_id)
  with assms show ?thesis using generate_voucher_table_step [of s dm admin rand new_id]
    by (cases "generate_voucher s dm admin rand new_id") auto
next
  case (GenerateBatch q dm env rand)
  with assms show ?thesis using generate_batch_table_step [of s q dm env rand]
    by (cases "generate_batch s q dm env rand") auto
qed

text \<open>What a step of the voucher table keeps.\<close>

lemma table_step_nonneg:
  assumes "table_step nn vs vs'" and "\<forall>v\<in>set vs. 0 \<le> remaining_minutes v"
  shows "\<forall>v\<in>set vs'. 0 \<le> remaining_minutes v"
proof -
  from assms(1) obtain g new where
    "vs' = map g vs @ new" "\<forall>v\<in>set vs. row_step nn v (g v)"
    "\<forall>v\<in>set new. remaining_minutes v = duration_minutes v \<and> 0 < duration_minutes v
       \<and> duration_minutes v \<le> 2147483647"
    unfolding table_step_def by blast
  with assms(2) show ?thesis by (auto simp add: row_step_def)
qed


lemma table_step_bounded:
  assumes "table_step True vs vs'"
    and "\<forall>v\<in>set vs. 0 \<le> remaining_minutes v \<and> remaining_minutes v \<le> duration_minutes v"
  shows "\<forall>v\<in>set vs'. 0 \<le> remaining_minutes v \<and> remaining_minutes v \<le> duration_minutes v"
proof -
  from assms(1) obtain g new where
    "vs' = map g vs @ new" "\<forall>v\<in>set vs. row_step True v (g v)"
    "\<forall>v\<in>set new. remaining_minutes v = duration_minutes v \<and> 0 < duration_minutes v
       \<and> duration_minutes v \<le> 2147483647"
    unfolding table_step_def by blast
  with assms(2) show ?thesis by (fastforce simp add: row_step_def)
qed

lemma table_step_nth:
  assumes "table_step True vs vs'" and "\<forall>v\<in>set vs. 0 \<le> remaining_minutes v"
  shows "length vs \<le> length vs'
     \<and> (\<forall>i<length vs. v_id (vs' ! i) = v_id (vs ! i)
            \<and> duration_minutes (vs' ! i) = duration_minutes (vs ! i)
            \<and> remaining_minutes (vs' ! i) \<le> remaining_minutes (vs ! i))"
proof -
  from assms(1) obtain g new where
    vs': "vs' = map g vs @ new" and g: "\<forall>v\<in>set vs. row_step True v (g v)"
    unfolding table_step_def by blast
  have "\<forall>i<length vs. vs' ! i = g (vs ! i)" by (simp add: vs' nth_append)
  with g assms(2) show ?thesis by (simp add: vs' row_step_def)
qed


lemma run_induct:
  assumes "run pf s rs = Some s'" and "P s"
    and "\<And>s r s'. P s \<Longrightarrow> handle pf s r = Some s' \<Longrightarrow> P s'"
  shows "P s'"
  using assms(1,2)
proof (induction rs arbitrary: s)
  case Nil
  then show ?case by simp
next
  case (Cons r rs)
  then show ?case by (auto split: option.splits intro: assms(3))
qed

lemma run_induct_nonneg:
  assumes "run pf s rs = Some s'" and "list_all nonneg_duration rs" and "P s"
    and "\<And>s r s'. P s \<Longrightarrow> nonneg_duration r \<Longrightarrow> handle pf s r = Some s' \<Longrightarrow> P s'"
  shows "P s'"
  using assms(1,2,3)
proof (induction rs arbitrary: s)
  case Nil
  then show ?case by simp
next
  case (Cons r rs)
  then show ?case by (auto split: option.splits intro: assms(4))
qed

lemma reachable_remaining_nonneg:
  assumes "run pf init_db rs = Some s"
  shows "\<forall>v\<in>set (vouchers s). 0 \<le> remaining_minutes v"
  using assms
proof (rule run_induct)
  show "\<forall>v\<in>set (vouchers init_db). 0 \<le> remaining_minutes v" by (simp add: init_db_def)
next
  fix s r s'
  assume "\<forall>v\<in>set (vouchers s). 0 \<le> remaining_minutes v" and "handle pf s r = Some s'"
  then show "\<forall>v\<in>set (vouchers s'). 0 \<le> remaining_minutes v"
    using table_step_nonneg [OF handle_table_step] by blast
qed


lemma reachable_remaining_bounded:
  assumes "run pf init_db rs = Some s" and "list_all nonneg_duration rs"
  shows "\<forall>v\<in>set (vouchers s). 0 \<le> remaining_minutes v \<and> remaining_minutes v \<le> duration_minutes v"
  using assms
proof (rule run_induct_nonneg)
  show "\<forall>v\<in>set (vouchers init_db). 0 \<le> remaining_minutes v \<and> remaining_minutes v \<le> duration_minutes v"
    by (simp add: init_db_def)
next
  fix s r s'
  assume "\<forall>v\<in>set (vouchers s). 0 \<le> remaining_minutes v \<and> remaining_minutes v \<le> duration_minutes v"
    and "nonneg_duration r" and "handle pf s r = Some s'"
  then show "\<forall>v\<in>set (vouchers s'). 0 \<le> remaining_minutes v \<and> remaining_minutes v \<le> duration_minutes v"
    using table_step_bounded [of "vouchers s" "vouchers s'"] handle_table_step [of pf s r s'] by simp
qed

lemma calls_step_refl: "calls_step vs cs cs"
  unfolding calls_step_def by (intro exI [of _ "\<lambda>c. c"] exI [of _ "[]"]) simp

lemma validate_voucher_call_logs: "call_logs (snd (validate_voucher pf s c d)) = call_logs s"
  by (simp add: validate_voucher_def split: list.splits option.splits)

lemma insert_call_log_Some:
  assumes "insert_call_log callId voucherId phone cc ct dev cs = Some cs'"
  shows "\<exists>c. cs' = cs @ [c] \<and> status c = ''active'' \<and> voucher_id c = Some voucherId"
  using assms by (auto simp add: insert_call_log_def split: option.splits if_splits)

lemma start_call_calls_step:
  "calls_step (vouchers s) (call_logs s) (call_logs (snd (start_call pf s v p cc ct callId)))"
proof (cases "call_logs (snd (start_call pf s v p cc ct callId)) = call_logs s")
  case True
  then show ?thesis by (simp add: calls_step_refl)
next
  case False
  then obtain vid voucher rest cs where
    found: "filter (\<lambda>x. v_id x = vid \<and> is_active x \<and> \<not> is_used x) (vouchers s) = voucher # rest"
    and ins: "insert_call_log callId vid (the p) (the cc) (the ct) (device_id voucher) (call_logs s)
                = Some cs"
    and cs: "call_logs (snd (start_call pf s v p cc ct callId)) = cs"
    by (auto simp add: start_call_def split: list.splits option.splits if_splits)
  have "voucher \<in> set (filter (\<lambda>x. v_id x = vid \<and> is_active x \<and> \<not> is_used x) (vouchers s))"
    by (simp add: found)
  then have "voucher \<in> set (vouchers s)" "v_id voucher = vid"
    by simp_all
  moreover from insert_call_log_Some [OF ins] obtain c where
    "cs = call_logs s @ [c]" "status c = ''active''" "voucher_id c = Some vid"
    by blast
  ultimately have "cs = map (\<lambda>c. c) (call_logs s) @ [c]"
    and "status c = ''active''"
    and "\<exists>x\<in>set (vouchers s). voucher_id c = Some (v_id x)"
    by (simp_all add: bexI [of _ voucher])
  then show ?thesis
    unfolding calls_step_def cs
    by (intro exI [of _ "\<lambda>c. c"] exI [of _ "[c]"]) simp
qed

lemma end_call_calls_step:
  "calls_step vs (call_logs s) (call_logs (snd (end_call pf s c d now)))"
proof (cases rule: end_call_cases [of pf s c d now])
  case unchanged
  then show ?thesis by (simp add: calls_step_refl)
next
  case (written callId n row)
  from written(2) show ?thesis
    unfolding calls_step_def complete_call_def
    by (intro exI [of _ "\<lambda>c. if call_id c = callId
          then c\<lparr>duration_seconds := n, status := ''completed'', ended_at := Some now\<rparr> else c"]
        exI [of _ "[]"]) simp
qed

lemma generate_voucher_call_logs:
  "generate_voucher s dm admin rand new_id = Some (r, s') \<Longrightarrow> call_logs s' = call_logs s"
  by (auto simp add: generate_voucher_def split: if_splits option.splits)

lemma generate_batch_call_logs:
  "generate_batch s q dm env rand = Some (r, s') \<Longrightarrow> call_logs s' = call_logs s"
  using generate_batch_cases [of s q dm env rand r s'] by auto

lemma handle_calls_step:
  assumes "handle pf s r = Some s'"
  shows "calls_step (vouchers s) (call_logs s) (call_logs s')"
proof (cases r)
  case (ValidateVoucher c d)
  with assms show ?thesis using validate_voucher_call_logs [of pf s c d]
    by (auto simp add: calls_step_refl)
next
  case (StartCall v p cc ct callId)
  with assms show ?thesis using start_call_calls_step [of s pf v p cc ct callId] by auto
next
  case (EndCall c d now)
  with assms show ?thesis using end_call_calls_step [of "vouchers s" s pf c d now] by auto
next
  case (GenerateVoucher dm admin rand new_id)
  with assms show ?thesis using generate_voucher_call_logs [of s dm admin rand new_id]
    by (cases "generate_voucher s dm admin rand new_id") (auto simp add: calls_step_refl)
next
  case (GenerateBatch q dm env rand)
  with assms show ?thesis using generate_batch_call_logs [of s q dm env rand]
    by (cases "generate_batch s q dm env rand") (auto simp add: calls_step_refl)
qed

lemma calls_step_status:
  assumes "calls_step vs cs cs'"
    and "\<forall>c\<in>set cs. status c = ''active'' \<or> status c = ''completed''"
  shows "\<forall>c\<in>set cs'. status c = ''active'' \<or> status c = ''completed''"
proof -
  from assms(1) obtain f new where
    "cs' = map f cs @ new"
    "\<forall>c. voucher_id (f c) = voucher_id c \<and> (status (f c) = status c \<or> status (f c) = ''completed'')"
    "\<forall>c\<in>set new. status c = ''active'' \<and> (\<exists>v\<in>set vs. voucher_id c = Some (v_id v))"
    unfolding calls_step_def by blast
  note step = this
  show ?thesis
  proof
    fix c assume "c \<in> set cs'"
    with step(1) consider c0 where "c0 \<in> set cs" "c = f c0" | "c \<in> set new"
      by auto
    then show "status c = ''active'' \<or> status c = ''completed''"
    proof cases
      case 1
      with assms(2) step(2) show ?thesis by metis
    next
      case 2
      with step(3) show ?thesis by simp
    qed
  qed
qed



subsection \<open>Reachable states\<close>

text \<open>The two concrete databases with a voucher are states the service reaches.\<close>

lemma varchar_call_fields:
  "varchar 20 ''555'' = Some ''555''" "varchar 5 ''1'' = Some ''1''"
  "varchar 20 ''local'' = Some ''local''"
  by code_simp+

lemma db_voucher_reached:
  "handle pf init_db (GenerateVoucher (Some 60) admin1 [\<lambda>i. 0] voucher1_id) = Some db_voucher"
  by (simp add: generate_voucher_def falsy_num_def generateVoucherCode_zero code_exists_def
      init_db_def insert_voucher_def insert_system_log_def db_voucher_def voucher1_def int4_def)

lemma db_call_reached:
  "handle ascii_platform db_voucher
     (StartCall (Some voucher1_id) (Some ''555'') (Some ''1'') (Some ''local'') call1_id)
     = Some db_call"
  by (simp add: start_call_def falsy_str_def db_voucher_def voucher1_def insert_call_log_def
      insert_system_log_def db_call_def call1_def canonical_uuid_voucher1 canonical_uuid_call1
      varchar_call1 varchar_call_fields)
     (simp add: voucher1_id_def)

lemma db_call_run:
  "run ascii_platform init_db
     [GenerateVoucher (Some 60) admin1 [\<lambda>i. 0] voucher1_id,
      StartCall (Some voucher1_id) (Some ''555'') (Some ''1'') (Some ''local'') call1_id]
     = Some db_call"
  by (simp add: db_voucher_reached db_call_reached del: handle.simps)

lemma db_call_end_run:
  "run ascii_platform init_db
     [GenerateVoucher (Some 60) admin1 [\<lambda>i. 0] voucher1_id,
      StartCall (Some voucher1_id) (Some ''555'') (Some ''1'') (Some ''local'') call1_id,
      EndCall (Some call1_id) (Some d) now]
     = Some (snd (end_call ascii_platform db_call (Some call1_id) (Some d) now))"
  by (simp add: db_voucher_reached db_call_reached del: handle.simps) simp

text \<open>
  Claim C10. In every state the service reaches from the empty database, every call row
  has status \<open>active\<close> or \<open>completed\<close>: \<^verbatim>\<open>/calls/start\<close> inserts rows with the
  default \<open>active\<close>, \<^verbatim>\<open>/calls/end\<close> writes \<open>completed\<close>, and no other handler writes
  the column.
\<close>

theorem call_status_active_or_completed:
  assumes "run pf init_db rs = Some s"
  shows "\<forall>c\<in>set (call_logs s). status c = ''active'' \<or> status c = ''completed''"
  using assms
proof (rule run_induct)
  show "\<forall>c\<in>set (call_logs init_db). status c = ''active'' \<or> status c = ''completed''"
    by (simp add: init_db_def)
next
  fix s r s'
  assume "\<forall>c\<in>set (call_logs s). status c = ''active'' \<or> status c = ''completed''"
    and "handle pf s r = Some s'"
  then show "\<forall>c\<in>set (call_logs s'). status c = ''active'' \<or> status c = ''completed''"
    using calls_step_status [OF handle_calls_step] by blast
qed

text \<open>The states after one call was started, and after it was ended.\<close>

theorem call_status_witness:
  "list_all (\<lambda>c. status c = ''active'' \<or> status c = ''completed'') (call_logs db_call)
   \<and> list_all (\<lambda>c. status c = ''active'' \<or> status c = ''completed'')
       (call_logs (snd (end_call ascii_platform db_call (Some call1_id) (Some 61) 1)))"
  using call_status_active_or_completed [OF db_call_run]
    call_status_active_or_completed [OF db_call_end_run [of 61 1]]
  by (simp add: list_all_iff)

text \<open>
  Claim C2, as the code has it. In every state the service reaches, no voucher has
  negative remaining minutes. When no request of the run had a negative duration, no
  voucher has more remaining minutes than its total. And a further request without a
  negative duration keeps every voucher row in place, with its id and total, and with
  remaining minutes that are not more than before.
\<close>

theorem remaining_minutes_bounds:
  assumes "run pf init_db rs = Some s"
  shows "(\<forall>v\<in>set (vouchers s). 0 \<le> remaining_minutes v)
     \<and> (list_all nonneg_duration rs \<longrightarrow>
          (\<forall>v\<in>set (vouchers s). remaining_minutes v \<le> duration_minutes v))
     \<and> (\<forall>r s'. nonneg_duration r \<and> handle pf s r = Some s' \<longrightarrow>
          length (vouchers s) \<le> length (vouchers s')
          \<and> (\<forall>i<length (vouchers s).
                v_id (vouchers s' ! i) = v_id (vouchers s ! i)
                \<and> duration_minutes (vouchers s' ! i) = duration_minutes (vouchers s ! i)
                \<and> remaining_minutes (vouchers s' ! i) \<le> remaining_minutes (vouchers s ! i)))"
proof -
  have nonneg: "\<forall>v\<in>set (vouchers s). 0 \<le> remaining_minutes v"
    by (rule reachable_remaining_nonneg [OF assms])
  have bounded: "\<forall>v\<in>set (vouchers s). remaining_minutes v \<le> duration_minutes v"
    if "list_all nonneg_duration rs"
    using reachable_remaining_bounded [OF assms that] by blast
  have step: "length (vouchers s) \<le> length (vouchers s')
          \<and> (\<forall>i<length (vouchers s).
                v_id (vouchers s' ! i) = v_id (vouchers s ! i)
                \<and> duration_minutes (vouchers s' ! i) = duration_minutes (vouchers s ! i)
                \<and> remaining_minutes (vouchers s' ! i) \<le> remaining_minutes (vouchers s ! i))"
    if "nonneg_duration r \<and> handle pf s r = Some s'" for r s'
  proof -
    from that have "table_step True (vouchers s) (vouchers s')"
      using handle_table_step [of pf s r s'] by simp
    from table_step_nth [OF this nonneg] show ?thesis .
  qed
  from nonneg bounded step show ?thesis by blast
qed

text \<open>On \<open>db_call\<close>, and on the step from it that ends the call after 61 seconds.\<close>

theorem remaining_minutes_bounds_witness:
  "list_all (\<lambda>v. 0 \<le> remaining_minutes v \<and> remaining_minutes v \<le> duration_minutes v)
     (vouchers db_call)
   \<and> remaining_minutes
       (vouchers (snd (end_call ascii_platform db_call (Some call1_id) (Some 61) 1)) ! 0)
       \<le> remaining_minutes (vouchers db_call ! 0)"
proof -
  have nn: "list_all nonneg_duration
      [GenerateVoucher (Some 60) admin1 [\<lambda>i. 0] voucher1_id,
       StartCall (Some voucher1_id) (Some ''555'') (Some ''1'') (Some ''local'') call1_id]"
    by simp
  have step: "nonneg_duration (EndCall (Some call1_id) (Some 61) 1)
      \<and> handle ascii_platform db_call (EndCall (Some call1_id) (Some 61) 1)
          = Some (snd (end_call ascii_platform db_call (Some call1_id) (Some 61) 1))"
    by simp
  have len: "0 < length (vouchers db_call)" by (simp add: db_defs)
  note bounds = remaining_minutes_bounds [OF db_call_run]
  from bounds nn have "\<forall>v\<in>set (vouchers db_call).
      0 \<le> remaining_minutes v \<and> remaining_minutes v \<le> duration_minutes v"
    by blast
  moreover from bounds step have "\<forall>i<length (vouchers db_call).
      remaining_minutes
        (vouchers (snd (end_call ascii_platform db_call (Some call1_id) (Some 61) 1)) ! i)
        \<le> remaining_minutes (vouchers db_call ! i)"
    by blast
  ultimately show ?thesis using len by (simp add: list_all_iff)
qed

text \<open>
  Claim C2 as stated fails on a run that ends a call with -120 seconds: the voucher goes
  from 60 to 62 remaining minutes, above its total of 60.
\<close>

theorem remaining_minutes_counterexample:
  "run ascii_platform init_db
     [GenerateVoucher (Some 60) admin1 [\<lambda>i. 0] voucher1_id,
      StartCall (Some voucher1_id) (Some ''555'') (Some ''1'') (Some ''local'') call1_id,
      EndCall (Some call1_id) (Some (- 120)) 3]
     = Some (snd (end_call ascii_platform db_call (Some call1_id) (Some (- 120)) 3))
   \<and> map remaining_minutes (vouchers db_call) = [60]
   \<and> map remaining_minutes
       (vouchers (snd (end_call ascii_platform db_call (Some call1_id) (Some (- 120)) 3))) = [62]
   \<and> map duration_minutes
       (vouchers (snd (end_call ascii_platform db_call (Some call1_id) (Some (- 120)) 3))) = [60]"
proof -
  have "map remaining_minutes
      (vouchers (snd (end_call ascii_platform db_call (Some call1_id) (Some (- 120)) 3))) = [62]"
    and "map duration_minutes
      (vouchers (snd (end_call ascii_platform db_call (Some call1_id) (Some (- 120)) 3))) = [60]"
    and "map remaining_minutes (vouchers db_call) = [60]"
    by (simp_all add: end_call_eval db_defs)
  with db_call_end_run [of "- 120" 3] show ?thesis by simp
qed




subsection \<open>Batches\<close>

lemma code_exists_iff: "code_exists c vs \<longleftrightarrow> c \<in> set (map code vs)"
  by (induction vs) (auto simp add: code_exists_def)

lemma ensure_unique_code_fresh:
  "ensure_unique_code rand vs = Some (c, rand') \<Longrightarrow> c \<notin> set (map code vs)"
  by (induction rand) (auto simp add: code_exists_iff split: if_splits)

lemma generate_vouchers_no_fault:
  "generate_vouchers i q dm env rand vs codes = Some (Some (vs', codes')) \<Longrightarrow>
     \<forall>j. i \<le> j \<and> j < q \<longrightarrow> \<not> insert_fails env j"
proof (induction i q dm env rand vs codes rule: generate_vouchers.induct)
  case (1 i q dm env rand vs codes)
  show ?case
  proof (cases "i < q")
    case False
    then show ?thesis by auto
  next
    case True
    from "1.prems" True obtain c rand' where
      unique: "ensure_unique_code rand vs = Some (c, rand')"
      by (auto simp add: generate_vouchers.simps [of i q] split: option.splits)
    from "1.prems" True unique have no_fault: "\<not> insert_fails env i"
      by (auto simp add: generate_vouchers.simps [of i q] split: if_splits)
    from "1.prems" True unique no_fault obtain vs1 where
      ins: "insert_voucher (new_voucher_id env i) c dm (admin_id env) (Some (new_batch_id env)) vs
              = Some vs1"
      and rest: "generate_vouchers (i + 1) q dm env rand' vs1 (codes @ [c]) = Some (Some (vs', codes'))"
      by (auto simp add: generate_vouchers.simps [of i q] split: option.splits)
    from "1.IH" [OF True unique refl no_fault ins rest]
    have later: "\<forall>j. i + 1 \<le> j \<and> j < q \<longrightarrow> \<not> insert_fails env j" .
    show ?thesis
    proof (intro allI impI)
      fix j assume "i \<le> j \<and> j < q"
      then have "j = i \<or> (i + 1 \<le> j \<and> j < q)" by auto
      with no_fault later show "\<not> insert_fails env j" by blast
    qed
  qed
qed

text \<open>
  When no insert of the rounds to come is made to fail, the ids the database will give
  are new and differ from each other, and the minutes fit the column, no query of the
  loop throws.
\<close>

lemma generate_vouchers_no_throw:
  "int4 dm \<Longrightarrow>
   \<forall>j. i \<le> j \<and> j < q \<longrightarrow>
       \<not> insert_fails env j \<and> new_voucher_id env j \<notin> set (map v_id vs) \<Longrightarrow>
   \<forall>j j'. i \<le> j \<and> j < j' \<and> j' < q \<longrightarrow> new_voucher_id env j \<noteq> new_voucher_id env j' \<Longrightarrow>
   generate_vouchers i q dm env rand vs codes \<noteq> Some None"
proof (induction i q dm env rand vs codes rule: generate_vouchers.induct)
  case (1 i q dm env rand vs codes)
  show ?case
  proof (cases "i < q")
    case False
    then show ?thesis by (simp add: generate_vouchers.simps [of i q])
  next
    case True
    show ?thesis
    proof (cases "ensure_unique_code rand vs")
      case None
      with True show ?thesis by (simp add: generate_vouchers.simps [of i q])
    next
      case (Some found)
      obtain c rand' where found: "found = (c, rand')" by (cases found)
      note unique = Some [unfolded found]
      from "1.prems"(2) True have no_fault: "\<not> insert_fails env i"
        and new_id: "new_voucher_id env i \<notin> set (map v_id vs)"
        by auto
      from ensure_unique_code_fresh [OF unique] new_id "1.prems"(1)
      obtain vs1 where
        ins: "insert_voucher (new_voucher_id env i) c dm (admin_id env) (Some (new_batch_id env)) vs
                = Some vs1"
        by (auto simp add: insert_voucher_def)
      from insert_voucher_Some [OF ins] obtain v where
        v: "vs1 = vs @ [v]" "v_id v = new_voucher_id env i"
        by blast
      have ids: "\<forall>j. i + 1 \<le> j \<and> j < q \<longrightarrow>
          \<not> insert_fails env j \<and> new_voucher_id env j \<notin> set (map v_id vs1)"
      proof (intro allI impI)
        fix j assume j: "i + 1 \<le> j \<and> j < q"
        then have "i \<le> j \<and> j < q" and "i \<le> i \<and> i < j \<and> j < q" by auto
        with "1.prems"(2,3) have "\<not> insert_fails env j"
          and "new_voucher_id env j \<notin> set (map v_id vs)"
          and "new_voucher_id env i \<noteq> new_voucher_id env j"
          by blast+
        then show "\<not> insert_fails env j \<and> new_voucher_id env j \<notin> set (map v_id vs1)"
          using v by auto
      qed
      have apart: "\<forall>j j'. i + 1 \<le> j \<and> j < j' \<and> j' < q \<longrightarrow>
          new_voucher_id env j \<noteq> new_voucher_id env j'"
        using "1.prems"(3) by auto
      from "1.IH" [OF True unique refl no_fault ins "1.prems"(1) ids apart]
      have "generate_vouchers (i + 1) q dm env rand' vs1 (codes @ [c]) \<noteq> Some None" .
      with True unique no_fault ins show ?thesis
        by (simp add: generate_vouchers.simps [of i q])
    qed
  qed
qed

lemma generate_vouchers_returns:
  "q - i \<le> int (length rand) \<Longrightarrow> distinct (map generateVoucherCode rand) \<Longrightarrow>
   set (map generateVoucherCode rand) \<inter> set (map code vs) = {} \<Longrightarrow>
   generate_vouchers i q dm env rand vs codes \<noteq> None"
proof (induction i q dm env rand vs codes rule: generate_vouchers.induct)
  case (1 i q dm env rand vs codes)
  show ?case
  proof (cases "i < q")
    case False
    then show ?thesis by (simp add: generate_vouchers.simps [of i q])
  next
    case True
    with "1.prems"(1) obtain draw rand' where rand: "rand = draw # rand'"
      by (cases rand) auto
    let ?c = "generateVoucherCode draw"
    from "1.prems"(3) rand have fresh: "?c \<notin> set (map code vs)" by auto
    then have unique: "ensure_unique_code rand vs = Some (?c, rand')"
      by (simp add: rand code_exists_iff)
    show ?thesis
    proof (cases "insert_fails env i")
      case True
      with \<open>i < q\<close> unique show ?thesis by (simp add: generate_vouchers.simps [of i q])
    next
      case no_fault: False
      show ?thesis
      proof (cases "insert_voucher (new_voucher_id env i) ?c dm (admin_id env)
                      (Some (new_batch_id env)) vs")
        case None
        with True unique no_fault show ?thesis by (simp add: generate_vouchers.simps [of i q])
      next
        case (Some vs1)
        from insert_voucher_Some [OF Some] obtain v where v: "vs1 = vs @ [v]" "code v = ?c"
          by blast
        have len: "q - (i + 1) \<le> int (length rand')" using "1.prems"(1) rand by simp
        have dist: "distinct (map generateVoucherCode rand')" using "1.prems"(2) rand by simp
        have disj: "set (map generateVoucherCode rand') \<inter> set (map code vs1) = {}"
          using "1.prems"(2,3) rand v by auto
        from "1.IH" [OF True unique refl no_fault Some len dist disj]
        have "generate_vouchers (i + 1) q dm env rand' vs1 (codes @ [?c]) \<noteq> None" .
        with True unique no_fault Some show ?thesis
          by (simp add: generate_vouchers.simps [of i q])
      qed
    qed
  qed
qed

text \<open>
  Claim C8. Whenever the batch handler returns for a quantity from 1 to 1000 and a
  positive duration, either it answers with the list of codes, the batch table has
  grown by the row of the batch, under a new id, and the voucher table has grown by
  exactly that many rows, in order, each with the given minutes as total and as
  balance, with pairwise distinct codes and the id of the batch, and no insert was made
  to fail; or it answers with an error and the database is the one before the request.
  The first is the case whenever nothing fails: the minutes fit \<^verbatim>\<open>INTEGER\<close>, no
  insert is made to fail, and the ids the database gives are new and differ from each
  other. For a quantity below 1 or above 1000 the answer is an error of status 400 and
  the database is unchanged. The handler does return when the random source holds
  enough distinct codes that are not in the table.
\<close>

theorem generate_batch_all_or_nothing:
  "(\<forall>reply s'. generate_batch s (Some k) (Some dm) env rand = Some (reply, s') \<longrightarrow>
      (1 \<le> k \<and> k \<le> 1000 \<and> 0 < dm \<longrightarrow>
         (\<exists>new. reply = SendResponse \<lparr>bd_codes = map code new, bd_total = length new\<rparr>
            \<and> vouchers s' = vouchers s @ new \<and> int (length new) = k
            \<and> distinct (map code new)
            \<and> (\<forall>v\<in>set new. remaining_minutes v = dm \<and> duration_minutes v = dm
                  \<and> batch_id v = Some (new_batch_id env))
            \<and> voucher_batches s' = voucher_batches s @
                  [\<lparr>b_id = new_batch_id env, b_quantity = k, b_duration_minutes = dm,
                    b_created_by = admin_id env\<rparr>]
            \<and> new_batch_id env \<notin> set (map b_id (voucher_batches s))
            \<and> (\<forall>j. 0 \<le> j \<and> j < k \<longrightarrow> \<not> insert_fails env j))
         \<or> (\<exists>e n. reply = SendError e n) \<and> s' = s)
      \<and> (1 \<le> k \<and> k \<le> 1000 \<and> 0 < dm \<and> dm \<le> 2147483647
           \<and> new_batch_id env \<notin> set (map b_id (voucher_batches s))
           \<and> (\<forall>j. 0 \<le> j \<and> j < k \<longrightarrow>
                 \<not> insert_fails env j \<and> new_voucher_id env j \<notin> set (map v_id (vouchers s)))
           \<and> (\<forall>j j'. 0 \<le> j \<and> j < j' \<and> j' < k \<longrightarrow>
                 new_voucher_id env j \<noteq> new_voucher_id env j') \<longrightarrow>
         (\<exists>x. reply = SendResponse x))
      \<and> (k < 1 \<or> 1000 < k \<longrightarrow> (\<exists>e. reply = SendError e 400) \<and> s' = s))
   \<and> (k \<le> int (length rand) \<and> distinct (map generateVoucherCode rand)
        \<and> set (map generateVoucherCode rand) \<inter> set (map code (vouchers s)) = {} \<longrightarrow>
        generate_batch s (Some k) (Some dm) env rand \<noteq> None)"
proof -
  have outside: "(\<exists>e. reply = SendError e 400) \<and> s' = s"
    if "generate_batch s (Some k) (Some dm) env rand = Some (reply, s')" and "k < 1 \<or> 1000 < k"
    for reply s'
    using that by (auto simp add: generate_batch_def falsy_num_def split: if_splits)
  have inside: "(\<exists>new. reply = SendResponse \<lparr>bd_codes = map code new, bd_total = length new\<rparr>
            \<and> vouchers s' = vouchers s @ new \<and> int (length new) = k
            \<and> distinct (map code new)
            \<and> (\<forall>v\<in>set new. remaining_minutes v = dm \<and> duration_minutes v = dm
                  \<and> batch_id v = Some (new_batch_id env))
            \<and> voucher_batches s' = voucher_batches s @
                  [\<lparr>b_id = new_batch_id env, b_quantity = k, b_duration_minutes = dm,
                    b_created_by = admin_id env\<rparr>]
            \<and> new_batch_id env \<notin> set (map b_id (voucher_batches s))
            \<and> (\<forall>j. 0 \<le> j \<and> j < k \<longrightarrow> \<not> insert_fails env j))
         \<or> (\<exists>e n. reply = SendError e n) \<and> s' = s"
    if ret: "generate_batch s (Some k) (Some dm) env rand = Some (reply, s')"
      and range: "1 \<le> k \<and> k \<le> 1000 \<and> 0 < dm"
    for reply s'
    using generate_batch_cases [OF ret]
  proof
    assume "s' = s \<and> (\<exists>e n. reply = SendError e n)"
    then show ?thesis by blast
  next
    assume "\<exists>bs vs codes.
           insert_voucher_batch (new_batch_id env) (the (Some k)) (the (Some dm)) (admin_id env)
             (voucher_batches s) = Some bs
         \<and> generate_vouchers 0 (the (Some k)) (the (Some dm)) env rand (vouchers s) []
             = Some (Some (vs, codes))
         \<and> 0 < the (Some k) \<and> the (Some k) \<le> 1000 \<and> 0 < the (Some dm)
         \<and> reply = SendResponse \<lparr>bd_codes = codes, bd_total = length codes\<rparr>
         \<and> vouchers s' = vs \<and> voucher_batches s' = bs \<and> call_logs s' = call_logs s"
    then obtain bs vs codes where
      batch: "insert_voucher_batch (new_batch_id env) k dm (admin_id env) (voucher_batches s)
                = Some bs"
      and loop: "generate_vouchers 0 k dm env rand (vouchers s) [] = Some (Some (vs, codes))"
      and reply: "reply = SendResponse \<lparr>bd_codes = codes, bd_total = length codes\<rparr>"
      and vs: "vouchers s' = vs" and bs: "voucher_batches s' = bs"
      by auto
    from batch have row: "bs = voucher_batches s @
          [\<lparr>b_id = new_batch_id env, b_quantity = k, b_duration_minutes = dm,
            b_created_by = admin_id env\<rparr>]"
      and new_batch: "new_batch_id env \<notin> set (map b_id (voucher_batches s))"
      by (auto simp add: insert_voucher_batch_def split: if_splits)
    from generate_vouchers_appends [OF loop] obtain new where
      new: "vs = vouchers s @ new" "codes = [] @ map code new" "int (length new) = max 0 (k - 0)"
        "\<forall>v\<in>set new. remaining_minutes v = dm \<and> duration_minutes v = dm
           \<and> batch_id v = Some (new_batch_id env) \<and> \<not> is_used v \<and> is_active v \<and> int4 dm"
        "distinct (map code new)"
      by blast
    from generate_vouchers_no_fault [OF loop]
    have "\<forall>j. 0 \<le> j \<and> j < k \<longrightarrow> \<not> insert_fails env j" .
    with new reply vs bs row new_batch range have
      "reply = SendResponse \<lparr>bd_codes = map code new, bd_total = length new\<rparr>
            \<and> vouchers s' = vouchers s @ new \<and> int (length new) = k
            \<and> distinct (map code new)
            \<and> (\<forall>v\<in>set new. remaining_minutes v = dm \<and> duration_minutes v = dm
                  \<and> batch_id v = Some (new_batch_id env))
            \<and> voucher_batches s' = voucher_batches s @
                  [\<lparr>b_id = new_batch_id env, b_quantity = k, b_duration_minutes = dm,
                    b_created_by = admin_id env\<rparr>]
            \<and> new_batch_id env \<notin> set (map b_id (voucher_batches s))
            \<and> (\<forall>j. 0 \<le> j \<and> j < k \<longrightarrow> \<not> insert_fails env j)"
      by simp
    then show ?thesis by blast
  qed
  have created: "\<exists>x. reply = SendResponse x"
    if ret: "generate_batch s (Some k) (Some dm) env rand = Some (reply, s')"
      and ok: "1 \<le> k \<and> k \<le> 1000 \<and> 0 < dm \<and> dm \<le> 2147483647
           \<and> new_batch_id env \<notin> set (map b_id (voucher_batches s))
           \<and> (\<forall>j. 0 \<le> j \<and> j < k \<longrightarrow>
                 \<not> insert_fails env j \<and> new_voucher_id env j \<notin> set (map v_id (vouchers s)))
           \<and> (\<forall>j j'. 0 \<le> j \<and> j < j' \<and> j' < k \<longrightarrow>
                 new_voucher_id env j \<noteq> new_voucher_id env j')"
    for reply s'
  proof -
    from ok have fits: "int4 dm" "int4 k" by (simp_all add: int4_def)
    from ok fits have batch: "insert_voucher_batch (new_batch_id env) k dm (admin_id env)
        (voucher_batches s) \<noteq> None"
      by (simp add: insert_voucher_batch_def)
    from ok have "generate_vouchers 0 k dm env rand (vouchers s) [] \<noteq> Some None"
      by (intro generate_vouchers_no_throw [OF fits(1)]) blast+
    with ret ok batch show ?thesis
      by (auto simp add: generate_batch_def falsy_num_def split: option.splits if_splits)
  qed
  have returns: "generate_batch s (Some k) (Some dm) env rand \<noteq> None"
    if enough: "k \<le> int (length rand) \<and> distinct (map generateVoucherCode rand)
        \<and> set (map generateVoucherCode rand) \<inter> set (map code (vouchers s)) = {}"
  proof -
    from enough have "generate_vouchers 0 k dm env rand (vouchers s) [] \<noteq> None"
      using generate_vouchers_returns [of k 0 rand "vouchers s" dm env "[]"] by simp
    then show ?thesis
      by (auto simp add: generate_batch_def split: option.splits)
  qed
  from outside inside created returns show ?thesis by blast
qed

lemmas batch_eval = generate_batch_def generate_vouchers.simps falsy_num_def
  insert_voucher_batch_def insert_voucher_def code_exists_def insert_system_log_def
  generateVoucherCode_zero generateVoucherCode_two generateVoucherCode_three
  batch_env_ok_def batch_env_fault_def rand3_def db_voucher_def voucher1_def int4_def id_defs

lemma batch_ok_eval:
  "map_option (\<lambda>x. (fst x,
        map (\<lambda>v. (code v, remaining_minutes v, batch_id v)) (vouchers (snd x)),
        map b_id (voucher_batches (snd x))))
     (generate_batch db_voucher (Some 2) (Some 30) batch_env_ok rand3) =
     Some (SendResponse \<lparr>bd_codes = [''CCCCCCCCCCCC'', ''DDDDDDDDDDDD''], bd_total = 2\<rparr>,
           [(''AAAAAAAAAAAA'', 60, None), (''CCCCCCCCCCCC'', 30, Some batch1_id),
            (''DDDDDDDDDDDD'', 30, Some batch1_id)],
           [batch1_id])"
  by (simp add: batch_eval)

lemma batch_fault_eval:
  "generate_batch db_voucher (Some 2) (Some 30) batch_env_fault rand3 =
     Some (SendError ''Internal server error'' 500, db_voucher)"
  by (simp add: batch_eval)

text \<open>
  A table that already holds the first code drawn: a batch of two skips that code and
  creates the batch row and two vouchers; with the second insert made to fail nothing of
  the batch is kept; a quantity of 1001 is refused; and on the empty table the handler
  returns.
\<close>

theorem generate_batch_witness:
  "map_option (\<lambda>x. (fst x,
        map (\<lambda>v. (code v, remaining_minutes v, batch_id v)) (vouchers (snd x)),
        map b_id (voucher_batches (snd x))))
     (generate_batch db_voucher (Some 2) (Some 30) batch_env_ok rand3) =
     Some (SendResponse \<lparr>bd_codes = [''CCCCCCCCCCCC'', ''DDDDDDDDDDDD''], bd_total = 2\<rparr>,
           [(''AAAAAAAAAAAA'', 60, None), (''CCCCCCCCCCCC'', 30, Some batch1_id),
            (''DDDDDDDDDDDD'', 30, Some batch1_id)],
           [batch1_id])
   \<and> generate_batch db_voucher (Some 2) (Some 30) batch_env_fault rand3 =
       Some (SendError ''Internal server error'' 500, db_voucher)
   \<and> generate_batch db_voucher (Some 1001) (Some 30) batch_env_ok rand3 =
       Some (SendError ''Maximum 1000 vouchers per batch'' 400, db_voucher)
   \<and> generate_batch init_db (Some 2) (Some 30) batch_env_ok rand3 \<noteq> None
   \<and> (\<exists>x s'. generate_batch init_db (Some 2) (Some 30) batch_env_ok rand3
         = Some (SendResponse x, s'))"
proof -
  have enough: "2 \<le> int (length rand3) \<and> distinct (map generateVoucherCode rand3)
      \<and> set (map generateVoucherCode rand3) \<inter> set (map code (vouchers init_db)) = {}"
    by (simp add: rand3_def init_db_def generateVoucherCode_zero generateVoucherCode_two
        generateVoucherCode_three)
  have ok: "(1 :: int) \<le> 2 \<and> (2 :: int) \<le> 1000 \<and> (0 :: int) < 30 \<and> (30 :: int) \<le> 2147483647
      \<and> new_batch_id batch_env_ok \<notin> set (map b_id (voucher_batches init_db))
      \<and> (\<forall>j. 0 \<le> j \<and> j < 2 \<longrightarrow> \<not> insert_fails batch_env_ok j
            \<and> new_voucher_id batch_env_ok j \<notin> set (map v_id (vouchers init_db)))
      \<and> (\<forall>j j'. 0 \<le> j \<and> j < j' \<and> j' < 2 \<longrightarrow>
            new_voucher_id batch_env_ok j \<noteq> new_voucher_id batch_env_ok j')"
    by (auto simp add: batch_env_ok_def init_db_def id_defs)
  have big: "generate_batch db_voucher (Some 1001) (Some 30) batch_env_ok rand3 =
      Some (SendError ''Maximum 1000 vouchers per batch'' 400, db_voucher)"
    by (simp add: generate_batch_def falsy_num_def)
  note inst = generate_batch_all_or_nothing [of init_db 2 30 batch_env_ok rand3]
  from inst enough
  have returns: "generate_batch init_db (Some 2) (Some 30) batch_env_ok rand3 \<noteq> None"
    by blast
  then obtain reply s' where
    ret: "generate_batch init_db (Some 2) (Some 30) batch_env_ok rand3 = Some (reply, s')"
    by (cases "generate_batch init_db (Some 2) (Some 30) batch_env_ok rand3") auto
  from inst ok ret have "\<exists>x. reply = SendResponse x"
    by blast
  with ret have "\<exists>x s'. generate_batch init_db (Some 2) (Some 30) batch_env_ok rand3
      = Some (SendResponse x, s')"
    by blast
  with returns show ?thesis using batch_ok_eval batch_fault_eval big by simp
qed

subsection \<open>Debits of one voucher in every order\<close>

text \<open>
  Every query is atomic, so however the queries of several requests to end a call are
  interleaved, the voucher table sees their updates one after the other, in some order:
  \<open>debits\<close> applies them in the order of the list. No other query of these requests
  writes the voucher table.
\<close>

lemma debits_sum:
  assumes "\<forall>d\<in>set ds. 0 \<le> fst d"
    and "\<forall>v\<in>set vs. Some (v_id v) = voucherId \<longrightarrow>
           sum_list (map fst ds) \<le> remaining_minutes v \<and> remaining_minutes v \<le> 2147483647"
  shows "\<exists>vs'. debits voucherId ds vs = Some vs'
     \<and> map (\<lambda>v. (v_id v, duration_minutes v, remaining_minutes v)) vs' =
         map (\<lambda>v. (v_id v, duration_minutes v,
                if Some (v_id v) = voucherId then remaining_minutes v - sum_list (map fst ds)
                else remaining_minutes v)) vs"
  using assms
proof (induction ds arbitrary: vs)
  case Nil
  then show ?case by simp
next
  case (Cons d ds)
  let ?m = "fst d"
  let ?vs1 = "map (\<lambda>v. if Some (v_id v) = voucherId then debit_row ?m (snd d) v else v) vs"
  have m: "0 \<le> ?m" using Cons.prems(1) by simp
  have rest: "0 \<le> sum_list (map fst ds)"
    using Cons.prems(1) by (intro sum_list_nonneg) auto
  have row: "?m + sum_list (map fst ds) \<le> remaining_minutes v
      \<and> remaining_minutes v \<le> 2147483647"
    if "v \<in> set vs" and "Some (v_id v) = voucherId" for v
    using Cons.prems(2) that by simp
  have fits: "debit_fits voucherId ?m vs"
    unfolding debit_fits_iff int4_def
  proof (intro ballI impI)
    fix v assume "v \<in> set vs" and "Some (v_id v) = voucherId"
    from row [OF this] m rest
    show "- 2147483648 \<le> remaining_minutes v - ?m \<and> remaining_minutes v - ?m \<le> 2147483647"
      by linarith
  qed
  have step: "debit voucherId ?m (snd d) vs =
      Some (?vs1, map (\<lambda>v. remaining_minutes (debit_row ?m (snd d) v))
                    (filter (\<lambda>v. Some (v_id v) = voucherId) vs))"
    by (rule debit_Some [OF fits])
  have after: "\<forall>v\<in>set ?vs1. Some (v_id v) = voucherId \<longrightarrow>
      sum_list (map fst ds) \<le> remaining_minutes v \<and> remaining_minutes v \<le> 2147483647"
  proof (intro ballI impI)
    fix w assume w: "w \<in> set ?vs1" and match: "Some (v_id w) = voucherId"
    from w obtain v where v: "v \<in> set vs"
      and w_def: "w = (if Some (v_id v) = voucherId then debit_row ?m (snd d) v else v)"
      by auto
    from match w_def have v_match: "Some (v_id v) = voucherId"
      by (simp split: if_splits)
    with w_def have "remaining_minutes w = max 0 (remaining_minutes v - ?m)"
      by (simp add: remaining_debit_row)
    with row [OF v v_match] rest
    show "sum_list (map fst ds) \<le> remaining_minutes w \<and> remaining_minutes w \<le> 2147483647"
      using m by linarith
  qed
  from Cons.IH [OF _ after] Cons.prems(1) obtain vs' where
    run: "debits voucherId ds ?vs1 = Some vs'"
    and rows: "map (\<lambda>v. (v_id v, duration_minutes v, remaining_minutes v)) vs' =
         map (\<lambda>v. (v_id v, duration_minutes v,
                if Some (v_id v) = voucherId then remaining_minutes v - sum_list (map fst ds)
                else remaining_minutes v)) ?vs1"
    by auto
  have eq: "map (\<lambda>v. (v_id v, duration_minutes v,
                if Some (v_id v) = voucherId then remaining_minutes v - sum_list (map fst ds)
                else remaining_minutes v)) ?vs1 =
        map (\<lambda>v. (v_id v, duration_minutes v,
                if Some (v_id v) = voucherId
                then remaining_minutes v - sum_list (map fst (d # ds))
                else remaining_minutes v)) vs"
  proof (simp only: map_map, rule map_cong [OF refl])
    fix v assume v: "v \<in> set vs"
    show "((\<lambda>v. (v_id v, duration_minutes v,
                if Some (v_id v) = voucherId then remaining_minutes v - sum_list (map fst ds)
                else remaining_minutes v)) \<circ>
           (\<lambda>v. if Some (v_id v) = voucherId then debit_row ?m (snd d) v else v)) v =
          (v_id v, duration_minutes v,
                if Some (v_id v) = voucherId
                then remaining_minutes v - sum_list (map fst (d # ds))
                else remaining_minutes v)"
    proof (cases "Some (v_id v) = voucherId")
      case True
      from row [OF v True] rest have "max 0 (remaining_minutes v - ?m) = remaining_minutes v - ?m"
        by linarith
      with True show ?thesis by (simp add: remaining_debit_row)
    next
      case False
      then show ?thesis by simp
    qed
  qed
  from step run have "debits voucherId (d # ds) vs = Some vs'"
    by simp
  moreover from rows eq
  have "map (\<lambda>v. (v_id v, duration_minutes v, remaining_minutes v)) vs' =
        map (\<lambda>v. (v_id v, duration_minutes v,
                if Some (v_id v) = voucherId
                then remaining_minutes v - sum_list (map fst (d # ds))
                else remaining_minutes v)) vs"
    by (rule trans)
  ultimately show ?case by blast
qed

text \<open>
  Claim C4, as the code has it. The debits of the voucher with id \<open>voucherId\<close>, each the
  one update of the voucher table with its own minutes and time, are applied to the
  table one after the other. When no amount is negative, and every row with that id
  holds a balance of at least the sum of the amounts and of at most 2147483647, then in
  every order of the debits no update throws, and the table ends with the same rows, ids
  and totals, the balance of the rows with that id being the old balance less the sum.
  A voucher not debited before has its total as balance, so it ends at the total less
  the sum.
\<close>

theorem debits_in_any_order:
  assumes "mset ds' = mset ds"
    and "\<forall>d\<in>set ds. 0 \<le> fst d"
    and "\<forall>v\<in>set vs. Some (v_id v) = voucherId \<longrightarrow>
           sum_list (map fst ds) \<le> remaining_minutes v \<and> remaining_minutes v \<le> 2147483647"
  shows "\<exists>vs'. debits voucherId ds' vs = Some vs'
     \<and> map (\<lambda>v. (v_id v, duration_minutes v, remaining_minutes v)) vs' =
         map (\<lambda>v. (v_id v, duration_minutes v,
                if Some (v_id v) = voucherId then remaining_minutes v - sum_list (map fst ds)
                else remaining_minutes v)) vs
     \<and> (\<forall>j < length vs. Some (v_id (vs ! j)) = voucherId
            \<and> remaining_minutes (vs ! j) = duration_minutes (vs ! j) \<longrightarrow>
          remaining_minutes (vs' ! j) = duration_minutes (vs' ! j) - sum_list (map fst ds))"
proof -
  from assms(1) have same_set: "set ds' = set ds" by (rule mset_eq_setD)
  have "mset (map fst ds') = mset (map fst ds)" using assms(1) by simp
  then have same_sum: "sum_list (map fst ds') = sum_list (map fst ds)"
    by (metis sum_mset_sum_list)
  from assms(2,3) same_set same_sum
  obtain vs' where run: "debits voucherId ds' vs = Some vs'"
    and rows: "map (\<lambda>v. (v_id v, duration_minutes v, remaining_minutes v)) vs' =
         map (\<lambda>v. (v_id v, duration_minutes v,
                if Some (v_id v) = voucherId then remaining_minutes v - sum_list (map fst ds)
                else remaining_minutes v)) vs"
    using debits_sum [of ds' vs voucherId] by auto
  from rows have len: "length vs' = length vs"
    by (rule map_eq_imp_length_eq)
  have fresh: "remaining_minutes (vs' ! j) = duration_minutes (vs' ! j) - sum_list (map fst ds)"
    if j: "j < length vs" and match: "Some (v_id (vs ! j)) = voucherId"
      and full: "remaining_minutes (vs ! j) = duration_minutes (vs ! j)" for j
  proof -
    from rows have "map (\<lambda>v. (v_id v, duration_minutes v, remaining_minutes v)) vs' ! j =
         map (\<lambda>v. (v_id v, duration_minutes v,
                if Some (v_id v) = voucherId then remaining_minutes v - sum_list (map fst ds)
                else remaining_minutes v)) vs ! j"
      by simp
    with j len match full show ?thesis by simp
  qed
  from run rows fresh show ?thesis by blast
qed

lemma debits_three:
  "map_option (map (\<lambda>v. (duration_minutes v, remaining_minutes v)))
     (debits (Some voucher1_id) [(2, 5), (1, 6), (3, 7)] [voucher1]) = Some [(60, 54)]"
  by (simp add: debit_def debit_fits_def debit_row_def int4_def voucher1_def)

text \<open>Debits of 2, 1 and 3 minutes on the voucher of 60, in two orders.\<close>

theorem debits_in_any_order_witness:
  "map_option (map (\<lambda>v. (duration_minutes v, remaining_minutes v)))
     (debits (Some voucher1_id) [(3, 7), (2, 5), (1, 6)] [voucher1]) = Some [(60, 54)]
   \<and> map_option (map (\<lambda>v. (duration_minutes v, remaining_minutes v)))
       (debits (Some voucher1_id) [(2, 5), (1, 6), (3, 7)] [voucher1]) = Some [(60, 54)]"
proof -
  have perm: "mset [(3 :: int, 7 :: nat), (2, 5), (1, 6)] = mset [(2, 5), (1, 6), (3, 7)]"
    by (simp add: add_mset_commute)
  have nonneg: "\<forall>d\<in>set [(2 :: int, 5 :: nat), (1, 6), (3, 7)]. 0 \<le> fst d"
    by simp
  have balance: "\<forall>v\<in>set [voucher1]. Some (v_id v) = Some voucher1_id \<longrightarrow>
      sum_list (map fst [(2 :: int, 5 :: nat), (1, 6), (3, 7)]) \<le> remaining_minutes v
      \<and> remaining_minutes v \<le> 2147483647"
    by (simp add: voucher1_def)
  from debits_in_any_order [OF perm nonneg balance] obtain vs' where
    run: "debits (Some voucher1_id) [(3, 7), (2, 5), (1, 6)] [voucher1] = Some vs'"
    and rows: "map (\<lambda>v. (v_id v, duration_minutes v, remaining_minutes v)) vs' =
         map (\<lambda>v. (v_id v, duration_minutes v,
                if Some (v_id v) = Some voucher1_id
                then remaining_minutes v - sum_list (map fst [(2 :: int, 5 :: nat), (1, 6), (3, 7)])
                else remaining_minutes v)) [voucher1]"
    by blast
  from rows have "map (\<lambda>v. (duration_minutes v, remaining_minutes v)) vs' = [(60, 54)]"
    by (cases vs') (simp_all add: voucher1_def)
  with run have "map_option (map (\<lambda>v. (duration_minutes v, remaining_minutes v)))
     (debits (Some voucher1_id) [(3, 7), (2, 5), (1, 6)] [voucher1]) = Some [(60, 54)]"
    by simp
  from this debits_three show ?thesis by (intro conjI)
qed

text \<open>
  Amounts of 70 and of -10 minutes sum to 60, the total of the voucher. Applied as 70
  then -10 they leave a balance of 10, applied as -10 then 70 a balance of 0: the
  balance depends on the order, and is not always the total less the sum. A call ended
  with a duration of -600 seconds is a debit of -10 minutes.
\<close>

theorem debits_order_counterexample:
  "sum_list (map fst [(70 :: int, 5 :: nat), (- 10, 6)]) = duration_minutes voucher1
   \<and> mset [(- 10 :: int, 6 :: nat), (70, 5)] = mset [(70, 5), (- 10, 6)]
   \<and> map_option (map remaining_minutes)
       (debits (Some voucher1_id) [(70, 5), (- 10, 6)] [voucher1]) = Some [10]
   \<and> map_option (map remaining_minutes)
       (debits (Some voucher1_id) [(- 10, 6), (70, 5)] [voucher1]) = Some [0]
   \<and> minutesUsed (- 600) = - 10"
proof -
  have "mset [(- 10 :: int, 6 :: nat), (70, 5)] = mset [(70, 5), (- 10, 6)]"
    by (simp add: add_mset_commute)
  moreover have "map_option (map remaining_minutes)
       (debits (Some voucher1_id) [(70, 5), (- 10, 6)] [voucher1]) = Some [10]"
    by (simp add: debit_def debit_fits_def debit_row_def int4_def voucher1_def)
  moreover have "map_option (map remaining_minutes)
       (debits (Some voucher1_id) [(- 10, 6), (70, 5)] [voucher1]) = Some [0]"
    by (simp add: debit_def debit_fits_def debit_row_def int4_def voucher1_def)
  moreover have "minutesUsed (- 600) = - 10"
    by (simp add: minutesUsed_div)
  moreover have "sum_list (map fst [(70 :: int, 5 :: nat), (- 10, 6)]) = duration_minutes voucher1"
    by (simp add: voucher1_def)
  ultimately show ?thesis by (intro conjI)
qed

subsection \<open>Further properties\<close>

text \<open>
  Every validation that finds a valid voucher, with a device id that fits the column,
  writes the caller's device id to the rows with that voucher's id, whatever device the
  voucher was bound to before.
\<close>

theorem validate_voucher_always_binds:
  assumes "c \<noteq> []" and "d \<noteq> []" and "text_ok (toUpperCase pf c)"
    and "varchar 100 d = Some dev"
    and "find (\<lambda>v. code v = toUpperCase pf c) (vouchers s) = Some v"
    and "is_active v" and "\<not> is_used v" and "0 < remaining_minutes v"
  shows "vouchers (snd (validate_voucher pf s (Some c) (Some d))) =
     map (\<lambda>w. if v_id w = v_id v then w\<lparr>device_id := Some dev\<rparr> else w) (vouchers s)"
proof -
  from assms(5) obtain rest where
    "filter (\<lambda>v. code v = toUpperCase pf c) (vouchers s) = v # rest"
    by (auto simp add: find_filter split: list.splits)
  with assms(1,2,3,4,6,7,8) show ?thesis
    by (simp add: validate_voucher_def falsy_str_def select_validate_row_def row_device_id_def
        update_device_id_def)
qed

text \<open>A voucher bound to \<open>deviceA\<close> is validated from \<open>deviceB\<close>.\<close>

theorem validate_voucher_always_binds_witness:
  "map device_id
     (vouchers (snd (validate_voucher ascii_platform
        (db_voucher\<lparr>vouchers := [voucher1\<lparr>device_id := Some ''deviceA''\<rparr>]\<rparr>)
        (Some ''aaaaaaaaaaaa'') (Some ''deviceB'')))) = [Some ''deviceB'']"
proof -
  have found: "find (\<lambda>v. code v = toUpperCase ascii_platform ''aaaaaaaaaaaa'')
      (vouchers (db_voucher\<lparr>vouchers := [voucher1\<lparr>device_id := Some ''deviceA''\<rparr>]\<rparr>))
      = Some (voucher1\<lparr>device_id := Some ''deviceA''\<rparr>)"
    by (simp add: upper_ascii_lower_a voucher1_def)
  have "vouchers (snd (validate_voucher ascii_platform
        (db_voucher\<lparr>vouchers := [voucher1\<lparr>device_id := Some ''deviceA''\<rparr>]\<rparr>)
        (Some ''aaaaaaaaaaaa'') (Some ''deviceB''))) =
     map (\<lambda>w. if v_id w = v_id (voucher1\<lparr>device_id := Some ''deviceA''\<rparr>)
               then w\<lparr>device_id := Some ''deviceB''\<rparr> else w)
       (vouchers (db_voucher\<lparr>vouchers := [voucher1\<lparr>device_id := Some ''deviceA''\<rparr>]\<rparr>))"
    by (rule validate_voucher_always_binds [OF _ _ _ varchar_deviceB found])
       (simp_all add: upper_ascii_lower_a text_ok_code_a voucher1_def)
  then show ?thesis by (simp add: voucher1_def)
qed

end
